theory Spec2Isabelle
  imports Main "HOL-Library.Word"
begin

unbundle bit_operations_syntax

section \<open>Machine types and return codes\<close>

text \<open>
  The archive code (\<^verbatim>\<open>src/common/mfu_flist_archive.c\<close>) computes every size and offset in
  \<^verbatim>\<open>uint64_t\<close>; these are 64-bit words here, so that addition, subtraction and
  multiplication wrap as they do in C.  MPI ranks and rank counts are C \<^verbatim>\<open>int\<close>s.

  The file calls functions of libarchive, MPI and libc, and the wrappers
  \<^verbatim>\<open>mfu_open\<close>, \<^verbatim>\<open>mfu_write\<close>, \<^verbatim>\<open>mfu_pwrite\<close>, \<^verbatim>\<open>mfu_read\<close>, \<^verbatim>\<open>mfu_lseek\<close>, \<^verbatim>\<open>mfu_ftruncate\<close>,
  \<^verbatim>\<open>mfu_readlink\<close> and \<^verbatim>\<open>mfu_alltrue\<close>, which are defined in other files.  Each wrapper is
  modelled by the system call or collective it wraps (POSIX \<^verbatim>\<open>open\<close>, \<^verbatim>\<open>write\<close>, \<^verbatim>\<open>pwrite\<close>,
  \<^verbatim>\<open>read\<close>, \<^verbatim>\<open>lseek\<close>, \<^verbatim>\<open>ftruncate\<close>, \<^verbatim>\<open>readlink\<close>; a logical AND over the ranks), and
  what libarchive does is a parameter of the model.\<close>

type_synonym u64 = "64 word"
type_synonym u8 = "8 word"

datatype mfu_rc = MFU_SUCCESS | MFU_FAILURE

datatype mfu_filetype = MFU_TYPE_FILE | MFU_TYPE_DIR | MFU_TYPE_LINK | MFU_TYPE_UNKNOWN

section \<open>Layout planner\<close>

text \<open>
  One item of the (sorted) file list as the create path reads it: its name, its type, the
  size \<^verbatim>\<open>mfu_flist_file_get_size\<close> reports, and the number of bytes \<^verbatim>\<open>encode_header\<close> stores in
  \<^verbatim>\<open>*outsize\<close> for it.\<close>

record flist_item =
  item_name :: string
  item_type :: mfu_filetype
  item_size :: u64
  item_hdr :: u64

text \<open>
  \<^verbatim>\<open>fsize_padded = fsize / 512; fsize_padded *= 512;
  if (fsize_padded < fsize) fsize_padded += 512;\<close>\<close>

definition fsize_padded :: "u64 \<Rightarrow> u64" where
  "fsize_padded fsize =
     (let p = (fsize div 512) * 512 in if p < fsize then p + 512 else p)"

text \<open>
  The padded content size the layout loop adds for an item: the padded file size for a
  regular file, nothing for every other type.\<close>

definition content_padded :: "flist_item \<Rightarrow> u64" where
  "content_padded it =
     (if item_type it = MFU_TYPE_FILE then fsize_padded (item_size it) else 0)"

text \<open>The value of \<^verbatim>\<open>header_sizes[idx]\<close> after the loop body.\<close>

definition header_size :: "flist_item \<Rightarrow> u64" where
  "header_size it =
     (if item_type it = MFU_TYPE_DIR \<or> item_type it = MFU_TYPE_LINK then item_hdr it
      else if item_type it = MFU_TYPE_FILE then item_hdr it
      else 0)"

text \<open>The value of \<^verbatim>\<open>entry_sizes[idx]\<close> after the loop body.\<close>

definition entry_size :: "flist_item \<Rightarrow> u64" where
  "entry_size it =
     (if item_type it = MFU_TYPE_DIR \<or> item_type it = MFU_TYPE_LINK then item_hdr it
      else if item_type it = MFU_TYPE_FILE then item_hdr it + fsize_padded (item_size it)
      else 0)"

section \<open>Extractor: dividing the entries among the ranks\<close>

text \<open>
  \<^verbatim>\<open>mfu_flist_archive_extract\<close>, lines 3270-3283.  \<^verbatim>\<open>ranks\<close> and \<^verbatim>\<open>mfu_rank\<close> are C
  \<^verbatim>\<open>int\<close>s, converted to \<^verbatim>\<open>uint64_t\<close> where they meet \<^verbatim>\<open>entries\<close>; the result is the pair
  \<^verbatim>\<open>(entry_start, entry_count)\<close>.\<close>

definition entry_partition :: "u64 \<Rightarrow> int \<Rightarrow> int \<Rightarrow> u64 \<times> u64" where
  "entry_partition entries ranks mfu_rank =
     (let R = (word_of_int ranks :: u64);
          r = (word_of_int mfu_rank :: u64);
          entries_per_rank = entries div R;
          entries_remainder = entries - entries_per_rank * R
      in if r < entries_remainder
         then (r * (entries_per_rank + 1), entries_per_rank + 1)
         else (entries_remainder * (entries_per_rank + 1)
                 + (r - entries_remainder) * entries_per_rank,
               entries_per_rank))"

definition entry_start :: "u64 \<Rightarrow> int \<Rightarrow> int \<Rightarrow> nat" where
  "entry_start entries ranks mfu_rank = unat (fst (entry_partition entries ranks mfu_rank))"

definition entry_count :: "u64 \<Rightarrow> int \<Rightarrow> int \<Rightarrow> nat" where
  "entry_count entries ranks mfu_rank = unat (snd (entry_partition entries ranks mfu_rank))"


section \<open>Work items of the dynamic copy engine\<close>

text \<open>
  A C string is modelled by the list of its characters before the terminating NUL.
  A call that ends the process is a value of type \<open>halt\<close>: \<^verbatim>\<open>DTAR_abort\<close> calls
  \<^verbatim>\<open>MPI_Abort\<close> and \<^verbatim>\<open>exit\<close>; passing the NULL that \<^verbatim>\<open>strtok\<close> returns to \<^verbatim>\<open>sscanf\<close>, or
  reading behind the end of the string, is an invalid memory access; a division by zero
  is an arithmetic fault.\<close>

datatype halt = DTAR_ABORT | MEMORY_FAULT | ARITH_FAULT

type_synonym s32 = "32 word"

text \<open>The only member of \<^verbatim>\<open>DTAR_operation_code_t\<close>; a C enum is stored as an \<^verbatim>\<open>int\<close>.\<close>

definition COPY_DATA :: s32 where
  "COPY_DATA = 0"

record DTAR_operation_t =
  file_size :: u64
  chunk_index :: u64
  offset :: u64
  code :: s32
  operand :: string

subsection \<open>The conversions of \<^verbatim>\<open>snprintf\<close> and \<^verbatim>\<open>sscanf\<close> that the code uses\<close>

definition digit_char :: "nat \<Rightarrow> char" where
  "digit_char d = ''0123456789'' ! d"

function dec_digits :: "nat \<Rightarrow> string" where
  "dec_digits n =
     (if n < 10 then [digit_char n] else dec_digits (n div 10) @ [digit_char (n mod 10)])"
  by pat_completeness auto
termination
  by (relation "measure (\<lambda>n. n)") auto

declare dec_digits.simps [simp del]

text \<open>\<^verbatim>\<open>"%" PRIu64\<close>\<close>

definition print_u64 :: "u64 \<Rightarrow> string" where
  "print_u64 v = dec_digits (unat v)"

text \<open>\<^verbatim>\<open>"%d"\<close>\<close>

definition print_int :: "s32 \<Rightarrow> string" where
  "print_int v =
     (if sint v < 0 then CHR ''-'' # dec_digits (nat (- sint v)) else dec_digits (nat (sint v)))"

definition is_digit :: "char \<Rightarrow> bool" where
  "is_digit c = (48 \<le> (of_char c :: nat) \<and> (of_char c :: nat) \<le> 57)"

definition digit_val :: "char \<Rightarrow> nat" where
  "digit_val c = of_char c - 48"

definition is_space :: "char \<Rightarrow> bool" where
  "is_space c = ((of_char c :: nat) = 32 \<or> (9 \<le> (of_char c :: nat) \<and> (of_char c :: nat) \<le> 13))"

text \<open>
  The value of the longest prefix of decimal digits; \<open>None\<close> when the string does not
  start with a digit, where the conversion fails.\<close>

definition scan_digits :: "string \<Rightarrow> nat option" where
  "scan_digits s =
     (let ds = takeWhile is_digit s
      in if ds = [] then None else Some (foldl (\<lambda>a c. 10 * a + digit_val c) 0 ds))"

text \<open>
  An integer conversion of \<^verbatim>\<open>sscanf\<close>: white space is skipped, a sign is accepted, then at
  least one digit must follow.  The result is \<open>None\<close> when \<^verbatim>\<open>sscanf\<close> does not return 1.\<close>

definition scan_signed :: "string \<Rightarrow> int option" where
  "scan_signed s =
     (case dropWhile is_space s of
        [] \<Rightarrow> None
      | c # r \<Rightarrow>
          if c = CHR ''-'' then map_option (\<lambda>n. - int n) (scan_digits r)
          else if c = CHR ''+'' then map_option int (scan_digits r)
          else map_option int (scan_digits (c # r)))"

text \<open>\<^verbatim>\<open>sscanf(s, "%" SCNu64, &v)\<close>\<close>

definition sscanf_u64 :: "string \<Rightarrow> u64 option" where
  "sscanf_u64 s = map_option word_of_int (scan_signed s)"

text \<open>\<^verbatim>\<open>sscanf(s, "%d", &v)\<close>\<close>

definition sscanf_int :: "string \<Rightarrow> s32 option" where
  "sscanf_int s = map_option word_of_int (scan_signed s)"

text \<open>
  \<^verbatim>\<open>strtok(s, ":")\<close>.  The argument is the position \<^verbatim>\<open>strtok\<close> continues from: the string
  of the first call, or the position saved by the call before (\<open>None\<close> when that call
  reached the end of the string).  The result is the token and the saved position, or
  \<open>None\<close> for the NULL that is returned when no token is left.\<close>

definition strtok :: "string option \<Rightarrow> (string \<times> string option) option" where
  "strtok sv =
     (case sv of
        None \<Rightarrow> None
      | Some s \<Rightarrow>
          (let s1 = dropWhile (\<lambda>c. c = CHR '':'') s
           in if s1 = [] then None
              else Some (takeWhile (\<lambda>c. c \<noteq> CHR '':'') s1,
                         case dropWhile (\<lambda>c. c \<noteq> CHR '':'') s1 of
                           [] \<Rightarrow> None
                         | d # rest \<Rightarrow> Some rest)))"

subsection \<open>\<^verbatim>\<open>DTAR_encode_operation\<close> and \<^verbatim>\<open>DTAR_decode_operation\<close>\<close>

text \<open>
  \<open>opsize\<close> is \<^verbatim>\<open>CIRCLE_MAX_STRING_LEN\<close>, a constant of libcircle.  The work item is
  \<^verbatim>\<open>"%" PRIu64 ":%" PRIu64 ":%" PRIu64 ":%d:%d:%s"\<close> of the file size, the chunk index, the
  offset, the operation code, \<^verbatim>\<open>(int) strlen(operand)\<close> and the operand; the process is
  aborted when \<^verbatim>\<open>snprintf\<close> reports \<open>opsize\<close> characters or more.\<close>

definition DTAR_encode_operation ::
  "nat \<Rightarrow> s32 \<Rightarrow> string \<Rightarrow> u64 \<Rightarrow> u64 \<Rightarrow> u64 \<Rightarrow> halt + string" where
  "DTAR_encode_operation opsize cd opnd fsize chunk_idx off =
     (let len = length opnd;
          op = print_u64 fsize @ '':'' @ print_u64 chunk_idx @ '':'' @ print_u64 off @ '':''
                 @ print_int cd @ '':'' @ print_int (word_of_nat len) @ '':'' @ opnd
      in if length op \<ge> opsize then Inl DTAR_ABORT else Inr op)"

text \<open>
  One numeric field of the work item: the next token is converted with \<open>conv\<close>; a NULL
  token is an invalid access inside \<^verbatim>\<open>sscanf\<close>, a failed conversion aborts.\<close>

definition scan_field ::
  "(string \<Rightarrow> 'a option) \<Rightarrow> string option \<Rightarrow> ('a \<Rightarrow> string option \<Rightarrow> halt + 'b) \<Rightarrow> halt + 'b" where
  "scan_field conv sv k =
     (case strtok sv of
        None \<Rightarrow> Inl MEMORY_FAULT
      | Some (tok, sv') \<Rightarrow>
          (case conv tok of None \<Rightarrow> Inl DTAR_ABORT | Some v \<Rightarrow> k v sv'))"

text \<open>
  After the fifth field, \<^verbatim>\<open>str + strlen(str) + 1\<close> is the position behind the colon that
  ended the token; there is no such position when the token ran to the end of the string.
  \<^verbatim>\<open>operand[op_len] = '\0'\<close> cuts the operand to \<open>op_len\<close> characters when the operand is
  longer, and leaves it as it is otherwise (writes outside the buffer of the work item
  are not modelled).\<close>

definition DTAR_decode_operation :: "string \<Rightarrow> halt + DTAR_operation_t" where
  "DTAR_decode_operation op =
     scan_field sscanf_u64 (Some op) (\<lambda>fsize sv1.
     scan_field sscanf_u64 sv1 (\<lambda>chunk_idx sv2.
     scan_field sscanf_u64 sv2 (\<lambda>off sv3.
     scan_field sscanf_int sv3 (\<lambda>cd sv4.
     scan_field sscanf_int sv4 (\<lambda>op_len sv5.
       (case sv5 of
          None \<Rightarrow> Inl MEMORY_FAULT
        | Some rest \<Rightarrow>
            Inr \<lparr>file_size = fsize, chunk_index = chunk_idx, offset = off, code = cd,
                 operand = (if sint op_len < 0 then rest else take (nat (sint op_len)) rest)\<rparr>))))))"

subsection \<open>\<^verbatim>\<open>DTAR_enqueue_copy\<close>\<close>

text \<open>
  The chunk indices for which \<^verbatim>\<open>DTAR_enqueue_copy\<close> encodes and enqueues a work item, for
  a regular file of \<open>fsize\<close> bytes: one for each full chunk, and one more when a remainder is
  left or when there is no full chunk.\<close>

definition chunk_ids :: "u64 \<Rightarrow> u64 \<Rightarrow> u64 list" where
  "chunk_ids fsize chunk_size =
     (let num_chunks = fsize div chunk_size
      in map word_of_nat [0 ..< unat num_chunks]
         @ (if num_chunks * chunk_size < fsize \<or> num_chunks = 0 then [num_chunks] else []))"

text \<open>The calls \<^verbatim>\<open>handle->enqueue(DTAR_encode_operation(COPY_DATA, name, size, c, doffset))\<close>.\<close>

fun enqueue_chunks ::
  "nat \<Rightarrow> string \<Rightarrow> u64 \<Rightarrow> u64 \<Rightarrow> u64 list \<Rightarrow> string list \<Rightarrow> halt + string list" where
  "enqueue_chunks opsize name fsize doffset [] queue = Inr queue"
| "enqueue_chunks opsize name fsize doffset (c # cs) queue =
     (case DTAR_encode_operation opsize COPY_DATA name fsize c doffset of
        Inl h \<Rightarrow> Inl h
      | Inr newop \<Rightarrow> enqueue_chunks opsize name fsize doffset cs (queue @ [newop]))"

text \<open>
  The loop over the list: each element pairs the item at index \<open>idx\<close> with
  \<^verbatim>\<open>DTAR_offsets[idx]\<close> and \<^verbatim>\<open>DTAR_header_sizes[idx]\<close>.  The result is the queue of encoded
  work items.\<close>

fun DTAR_enqueue_copy ::
  "nat \<Rightarrow> u64 \<Rightarrow> (flist_item \<times> u64 \<times> u64) list \<Rightarrow> string list \<Rightarrow> halt + string list" where
  "DTAR_enqueue_copy opsize chunk_size [] queue = Inr queue"
| "DTAR_enqueue_copy opsize chunk_size ((it, off, hsize) # rest) queue =
     (if item_type it \<noteq> MFU_TYPE_FILE then DTAR_enqueue_copy opsize chunk_size rest queue
      else if chunk_size = 0 then Inl ARITH_FAULT
      else case enqueue_chunks opsize (item_name it) (item_size it) (off + hsize)
                  (chunk_ids (item_size it) chunk_size) queue of
             Inl h \<Rightarrow> Inl h
           | Inr queue' \<Rightarrow> DTAR_enqueue_copy opsize chunk_size rest queue')"

subsection \<open>\<^verbatim>\<open>DTAR_perform_copy\<close>\<close>

text \<open>
  A file is the list of its bytes.  Writing \<open>data\<close> at position \<open>pos\<close> replaces the bytes
  there and extends the file, with zeros in any gap, when it reaches behind the end.\<close>

definition file_write :: "u8 list \<Rightarrow> nat \<Rightarrow> u8 list \<Rightarrow> u8 list" where
  "file_write f pos data =
     (let f' = f @ replicate (pos + length data - length f) 0
      in take pos f' @ data @ drop (pos + length data) f')"

text \<open>
  What the copy callback meets outside the process: the source files that can be opened
  for reading, with their contents, and whether writes to the archive succeed.\<close>

record copy_env =
  src_files :: "string \<rightharpoonup> u8 list"
  archive_writable :: bool

text \<open>
  The state the callback changes: the error flag \<^verbatim>\<open>DTAR_err\<close>, the progress counter
  \<^verbatim>\<open>reduce_bytes\<close>, the contents of the archive file and the file position of its
  descriptor \<^verbatim>\<open>DTAR_writer.fd\<close> (taken to be open).\<close>

record copy_state =
  DTAR_err :: bool
  reduce_bytes :: u64
  archive :: "u8 list"
  archive_pos :: nat

text \<open>\<^verbatim>\<open>mfu_lseek(name, fd, offset, SEEK_SET)\<close> takes an \<^verbatim>\<open>off_t\<close>: a negative position is refused.\<close>

definition lseek_ok :: "u64 \<Rightarrow> bool" where
  "lseek_ok pos = (0 \<le> sint pos)"

text \<open>
  The loop \<^verbatim>\<open>while (total_bytes_written < chunk_size && DTAR_err == 0)\<close>.  The source is
  read from \<open>in_offset\<close> on and the archive written from \<open>out_offset\<close> on, both advancing
  by the bytes written so far; \<^verbatim>\<open>mfu_read\<close> returns the bytes the file has there, at most
  \<open>num_to_read\<close> of them.  The loop state is \<open>(total_bytes_written, DTAR_err, archive)\<close>.\<close>

function copy_loop ::
  "bool \<Rightarrow> u8 list \<Rightarrow> u64 \<Rightarrow> u64 \<Rightarrow> nat \<Rightarrow> nat \<Rightarrow> u64 \<times> bool \<times> u8 list
     \<Rightarrow> u64 \<times> bool \<times> u8 list" where
  "copy_loop wr_ok src chunk_size io_bufsize in_offset out_offset (written, err, ar) =
     (if written < chunk_size \<and> \<not> err then
        (let remainder = chunk_size - written;
             num_to_read = (if remainder < io_bufsize then remainder else io_bufsize);
             data = take (unat num_to_read) (drop (in_offset + unat written) src)
         in if data = [] then (written, err, ar)
            else if \<not> wr_ok then (written, True, ar)
            else copy_loop wr_ok src chunk_size io_bufsize in_offset out_offset
                   (written + word_of_nat (length data), err,
                    file_write ar (out_offset + unat written) data))
      else (written, err, ar))"
  by pat_completeness auto

termination copy_loop
proof (relation "measure (\<lambda>(wr_ok, src, chunk_size, io_bufsize, in_offset, out_offset,
          written, err, ar). unat (chunk_size - written))", goal_cases)
  case 1
  then show ?case by simp
next
  case (2 wr_ok src chunk_size io_bufsize in_offset out_offset written err ar
          remainder num_to_read data)
  define len where "len = length data"
  have len_pos: "0 < len" using 2 by (simp add: len_def)
  have len_le: "len \<le> unat num_to_read" using 2 by (simp add: len_def)
  have "num_to_read \<le> remainder" using 2 by auto
  then have n_le: "unat num_to_read \<le> unat remainder" by (simp add: word_le_nat_alt)
  have "unat num_to_read < 2 ^ 64"
    using unsigned_less [of num_to_read, where 'a = nat] by simp
  then have "len < 2 ^ LENGTH(64)" using len_le by simp
  then have ul: "unat (word_of_nat len :: u64) = len" by (intro of_nat_inverse) simp_all
  have le: "(word_of_nat len :: u64) \<le> remainder"
    using len_le n_le by (simp add: word_le_nat_alt ul)
  have e: "chunk_size - (written + word_of_nat len) = remainder - word_of_nat len"
    using 2 by simp
  have "unat (remainder - word_of_nat len) = unat remainder - len"
    using le by (simp add: unat_sub ul)
  then have "unat (chunk_size - (written + word_of_nat len)) < unat remainder"
    unfolding e using len_pos len_le n_le by linarith
  then show ?case using 2 by (simp add: len_def)
qed

declare copy_loop.simps [simp del]

text \<open>
  The callback for one dequeued work item \<open>opstr\<close>.  \<open>chunk_size\<close> is
  \<^verbatim>\<open>DTAR_opts->chunk_size\<close> and \<open>io_bufsize\<close> is \<^verbatim>\<open>DTAR_writer.io_bufsize\<close>.  Opening the
  source fails when it is not among the readable files; \<^verbatim>\<open>mfu_lseek\<close> on the source
  fails on the descriptor -1 left by a failed open.\<close>

definition DTAR_perform_copy ::
  "copy_env \<Rightarrow> u64 \<Rightarrow> u64 \<Rightarrow> string \<Rightarrow> copy_state \<Rightarrow> halt + copy_state" where
  "DTAR_perform_copy env chunk_size io_bufsize opstr st =
     (case DTAR_decode_operation opstr of
        Inl h \<Rightarrow> Inl h
      | Inr op \<Rightarrow>
          (let opened = src_files env (operand op);
               err1 = (DTAR_err st \<or> opened = None);
               in_offset = chunk_size * chunk_index op;
               err2 = (err1 \<or> opened = None \<or> \<not> lseek_ok in_offset);
               out_offset = offset op + in_offset;
               err3 = (err2 \<or> \<not> lseek_ok out_offset);
               pos = (if lseek_ok out_offset then unat out_offset else archive_pos st);
               (total_bytes_written, err4, ar) =
                  copy_loop (archive_writable env) (case opened of None \<Rightarrow> [] | Some b \<Rightarrow> b)
                    chunk_size io_bufsize (unat in_offset) pos (0, err3, archive st)
           in if chunk_size = 0 then Inl ARITH_FAULT
              else
                (let num_chunks = file_size op div chunk_size;
                     rem = file_size op - chunk_size * num_chunks;
                     last_chunk = (if rem \<noteq> 0 then num_chunks else num_chunks - 1);
                     last_expected =
                       (if chunk_index op = last_chunk then file_size op
                        else in_offset + chunk_size);
                     last_written = in_offset + total_bytes_written;
                     err5 = (err4 \<or> last_written < last_expected);
                     pos' = pos + unat total_bytes_written;
                     padding = 512 - int (unat (file_size op mod 512));
                     pad = (chunk_index op = last_chunk \<and> padding > 0 \<and> padding \<noteq> 512)
                 in Inr \<lparr>DTAR_err = (err5 \<or> (pad \<and> \<not> archive_writable env)),
                         reduce_bytes = reduce_bytes st + total_bytes_written,
                         archive =
                           (if pad \<and> archive_writable env
                            then file_write ar pos' (replicate (nat padding) 0) else ar),
                         archive_pos =
                           (if pad \<and> archive_writable env then pos' + nat padding else pos')\<rparr>)))"

section \<open>Index file\<close>

subsection \<open>Packing offsets\<close>

text \<open>
  Modelled from the spec: \<^verbatim>\<open>mfu_pack_uint64\<close> and \<^verbatim>\<open>mfu_unpack_uint64\<close> are called by
  \<^verbatim>\<open>write_entry_index\<close> and \<^verbatim>\<open>read_entry_index\<close> but defined outside
  \<^verbatim>\<open>mfu_flist_archive.c\<close>.  The spec says the index holds \<^verbatim>\<open>uint64_be\<close> values, ``packed
  big-endian'' (the source comments say ``network order''): eight bytes, the most
  significant first.\<close>

definition mfu_pack_uint64 :: "u64 \<Rightarrow> u8 list" where
  "mfu_pack_uint64 v = map (\<lambda>k. ucast (drop_bit (8 * k) v)) [7, 6, 5, 4, 3, 2, 1, 0]"

text \<open>
  Modelled from the spec: the value of the first eight bytes of the buffer, read
  big-endian.\<close>

definition mfu_unpack_uint64 :: "u8 list \<Rightarrow> u64" where
  "mfu_unpack_uint64 bs = word_of_nat (foldl (\<lambda>acc b. 256 * acc + unat b) 0 (take 8 bs))"

subsection \<open>File system and collectives\<close>

text \<open>
  The part of the shared file system the index code touches: the files by path, each with
  the permission bits it was created with and its bytes; the paths \<^verbatim>\<open>mfu_open\<close> fails on;
  and whether \<^verbatim>\<open>mfu_write\<close> fails.\<close>

record fs_file =
  f_mode :: nat
  f_data :: "u8 list"

record fs_env =
  fs_files :: "string \<rightharpoonup> fs_file"
  fs_denied :: "string \<Rightarrow> bool"
  fs_full :: bool

text \<open>
  \<^verbatim>\<open>mfu_open(name, O_WRONLY | O_CREAT | O_TRUNC, mode)\<close>: an existing file is emptied and
  keeps its permission bits, a missing file is created with \<open>mode\<close> (the process umask is
  taken to be 0).  \<open>None\<close> is a negative descriptor.\<close>

definition mfu_open_create_trunc :: "fs_env \<Rightarrow> string \<Rightarrow> nat \<Rightarrow> fs_env option" where
  "mfu_open_create_trunc fs name mode =
     (if fs_denied fs name then None
      else Some (fs\<lparr>fs_files := (fs_files fs)
             (name \<mapsto> (case fs_files fs name of
                            None \<Rightarrow> \<lparr>f_mode = mode, f_data = []\<rparr>
                          | Some f \<Rightarrow> f\<lparr>f_data := []\<rparr>))\<rparr>))"

text \<open>
  \<^verbatim>\<open>mfu_write(name, fd, buf, size)\<close> on a descriptor just opened with \<^verbatim>\<open>O_TRUNC\<close>: the
  number of bytes written (-1 on failure) and the file system afterwards.\<close>

definition mfu_write :: "fs_env \<Rightarrow> string \<Rightarrow> u8 list \<Rightarrow> int \<times> fs_env" where
  "mfu_write fs name buf =
     (if fs_full fs then (- 1, fs)
      else (int (length buf),
            fs\<lparr>fs_files := (fs_files fs)
              (name \<mapsto> (case fs_files fs name of
                             None \<Rightarrow> \<lparr>f_mode = 0, f_data = buf\<rparr>
                           | Some f \<Rightarrow> f\<lparr>f_data := buf\<rparr>))\<rparr>))"

text \<open>
  The collectives are modelled on the list of the values the ranks of \<^verbatim>\<open>MPI_COMM_WORLD\<close>
  contribute, in rank order.  \<^verbatim>\<open>MPI_Allreduce\<close> with \<^verbatim>\<open>MPI_SUM\<close> on \<^verbatim>\<open>MPI_UINT64_T\<close>, and
  the value \<^verbatim>\<open>MPI_Scan\<close> delivers to rank \<open>r\<close>: sums of 64-bit words, which wrap.\<close>

definition MPI_Allreduce_sum :: "u64 list \<Rightarrow> u64" where
  "MPI_Allreduce_sum xs = sum_list xs"

definition MPI_Scan_sum :: "u64 list \<Rightarrow> nat \<Rightarrow> u64" where
  "MPI_Scan_sum xs r = sum_list (take (Suc r) xs)"

text \<open>
  \<^verbatim>\<open>(int) count\<close>, and also the \<^verbatim>\<open>int\<close> that \<^verbatim>\<open>MPI_Allgather(&count, 1, MPI_INT, ...)\<close> reads
  at the address of a \<^verbatim>\<open>uint64_t\<close> on a little-endian machine: the low 32 bits.\<close>

definition low_int :: "u64 \<Rightarrow> s32" where
  "low_int v = ucast v"

text \<open>
  \<^verbatim>\<open>MPI_Gatherv\<close> at the root: rank by rank, \<open>cnt\<close> elements of the rank's send buffer are
  stored in the receive buffer from index \<open>disp\<close> on.  \<open>None\<close> stands for the MPI error of a
  negative count or displacement and for a block that does not fit the buffers.\<close>

fun MPI_Gatherv :: "u64 list \<Rightarrow> (u64 list \<times> s32 \<times> s32) list \<Rightarrow> u64 list option" where
  "MPI_Gatherv recvbuf [] = Some recvbuf"
| "MPI_Gatherv recvbuf ((sendbuf, cnt, disp) # rest) =
     (if sint cnt < 0 \<or> sint disp < 0 \<or> length sendbuf < nat (sint cnt)
         \<or> length recvbuf < nat (sint disp) + nat (sint cnt)
      then None
      else MPI_Gatherv
             (take (nat (sint disp)) recvbuf @ take (nat (sint cnt)) sendbuf
                @ drop (nat (sint disp) + nat (sint cnt)) recvbuf) rest)"

subsection \<open>\<^verbatim>\<open>write_entry_index\<close>\<close>

text \<open>
  The block that rank 0 executes (lines 843-880): open the index file, pack
  \<open>total_entries\<close> offsets, write the buffer.  The result is the flag \<^verbatim>\<open>success\<close> and the file system
  afterwards; \<open>None\<close> when \<^verbatim>\<open>total * sizeof(uint64_t)\<close> wraps, so that the packing loop
  overruns its buffer.\<close>

definition index_file_write ::
  "fs_env \<Rightarrow> string \<Rightarrow> u64 \<Rightarrow> u64 list \<Rightarrow> (bool \<times> fs_env) option" where
  "index_file_write fs name total_entries all_offsets =
     (case mfu_open_create_trunc fs name 432 of
        None \<Rightarrow> Some (False, fs)
      | Some fs1 \<Rightarrow>
          (let bufsize = total_entries * 8;
               packed = concat (map mfu_pack_uint64 (take (unat total_entries) all_offsets))
           in if unat bufsize < length packed then None
              else (let (nwritten, fs2) = mfu_write fs1 name packed
                    in Some (nwritten = int (unat bufsize), fs2))))"

text \<open>
  \<^verbatim>\<open>write_entry_index(file, count, offsets)\<close> as rank \<open>mfu_rank\<close> executes it, where
  \<open>world ! r\<close> is the array \<^verbatim>\<open>offsets\<close> rank \<open>r\<close> passes and its length the \<^verbatim>\<open>count\<close> it
  passes.  The mode 0660 of the source is 432.  Only rank 0 touches the file system; the
  return code is the same on every rank, since \<^verbatim>\<open>mfu_alltrue\<close> combines the flags and every
  other rank contributes 1.\<close>

definition write_entry_index ::
  "fs_env \<Rightarrow> string \<Rightarrow> u64 list list \<Rightarrow> int \<Rightarrow> (mfu_rc \<times> fs_env) option" where
  "write_entry_index fs file world mfu_rank =
     (let name = file @ ''.idx'';
          counts = map (\<lambda>offsets. word_of_nat (length offsets)) world;
          total_entries = MPI_Allreduce_sum counts;
          starts = map (\<lambda>r. MPI_Scan_sum counts r - counts ! r) [0 ..< length world];
          rank_counts = map low_int counts;
          rank_disps = map low_int starts
      in case MPI_Gatherv (replicate (unat total_entries) 0) (zip world (zip rank_counts rank_disps)) of
           None \<Rightarrow> None
         | Some all_offsets \<Rightarrow>
             (case index_file_write fs name total_entries all_offsets of
                None \<Rightarrow> None
              | Some (success, fs') \<Rightarrow>
                  Some (if success then MFU_SUCCESS else MFU_FAILURE,
                        if mfu_rank = 0 then fs' else fs)))"

subsection \<open>\<^verbatim>\<open>read_entry_index\<close>\<close>

text \<open>
  Rank 0 stats and reads the index file and broadcasts the result, so every rank returns
  the same.  The result is the return code with \<^verbatim>\<open>*out_count\<close> and \<^verbatim>\<open>*out_offsets\<close>; on
  failure the function leaves both as the caller initialised them, 0 and \<^verbatim>\<open>NULL\<close>.\<close>

definition read_entry_index :: "fs_env \<Rightarrow> string \<Rightarrow> mfu_rc \<times> u64 \<times> u64 list" where
  "read_entry_index fs filename =
     (let name = filename @ ''.idx'';
          st = fs_files fs name;
          count = (case st of
                     None \<Rightarrow> 0
                   | Some f \<Rightarrow> (word_of_nat (length (f_data f)) :: u64) div 8);
          bufsize = count * 8;
          buf = (case st of None \<Rightarrow> [] | Some f \<Rightarrow> take (unat bufsize) (f_data f));
          have_index = (st \<noteq> None \<and> \<not> fs_denied fs name \<and> length buf = unat bufsize)
      in if \<not> have_index then (MFU_FAILURE, 0, [])
         else (MFU_SUCCESS, count,
               map (\<lambda>i. mfu_unpack_uint64 (drop (8 * i) buf)) [0 ..< unat count]))"

section \<open>Extraction\<close>

text \<open>
  A function either returns or ends the process with \<^verbatim>\<open>exit(code)\<close>.\<close>

datatype 'a outcome = Returns 'a | Exits int

text \<open>
  What \<^verbatim>\<open>archive_read_next_header\<close> delivers: an entry (here with the position
  \<^verbatim>\<open>archive_read_header_position\<close> reports for it), the end of the archive, or an error
  code (\<^verbatim>\<open>ARCHIVE_RETRY\<close> -10, \<^verbatim>\<open>ARCHIVE_WARN\<close> -20, \<^verbatim>\<open>ARCHIVE_FAILED\<close> -25,
  \<^verbatim>\<open>ARCHIVE_FATAL\<close> -30).  An archive read from the start is the list of the results of
  the successive calls; behind the list the reader reports the end of the archive.\<close>

datatype 'e next_header = ARCHIVE_OK u64 'e | ARCHIVE_EOF | ARCHIVE_ERROR int

text \<open>\<^verbatim>\<open>mfu_alltrue(flag, comm)\<close>: the flag of this rank and those of the other ranks.\<close>

definition mfu_alltrue :: "bool \<Rightarrow> bool \<Rightarrow> bool" where
  "mfu_alltrue flag others = (flag \<and> others)"

subsection \<open>\<^verbatim>\<open>index_entries\<close>\<close>

text \<open>The scanning loop of rank 0: the offsets recorded so far, and the return code.\<close>

fun index_loop :: "'e next_header list \<Rightarrow> u64 list \<Rightarrow> mfu_rc \<times> u64 list" where
  "index_loop [] offsets = (MFU_SUCCESS, offsets)"
| "index_loop (ARCHIVE_EOF # rest) offsets = (MFU_SUCCESS, offsets)"
| "index_loop (ARCHIVE_ERROR r # rest) offsets = (MFU_FAILURE, offsets)"
| "index_loop (ARCHIVE_OK pos entry # rest) offsets = index_loop rest (offsets @ [pos])"

text \<open>
  \<open>opened\<close> tells whether \<^verbatim>\<open>archive_read_open_filename\<close> returned \<^verbatim>\<open>ARCHIVE_OK\<close>.  Rank 0
  broadcasts its return code, the count and the offsets.\<close>

definition index_entries :: "bool \<Rightarrow> 'e next_header list \<Rightarrow> mfu_rc \<times> u64 \<times> u64 list" where
  "index_entries opened hdrs =
     (if \<not> opened then (MFU_FAILURE, 0, [])
      else case index_loop hdrs [] of
             (MFU_FAILURE, offsets) \<Rightarrow> (MFU_FAILURE, 0, [])
           | (MFU_SUCCESS, offsets) \<Rightarrow> (MFU_SUCCESS, word_of_nat (length offsets), offsets))"

subsection \<open>\<^verbatim>\<open>extract_flist\<close>\<close>

text \<open>
  The loop \<^verbatim>\<open>while (1)\<close> of \<^verbatim>\<open>extract_flist\<close>: \<open>count\<close> entries have been read, \<open>flist\<close> holds
  the entries inserted by this rank.\<close>

fun extract_flist_loop ::
  "'e next_header list \<Rightarrow> nat \<Rightarrow> nat \<Rightarrow> nat \<Rightarrow> 'e list \<Rightarrow> 'e list outcome" where
  "extract_flist_loop [] count ranks mfu_rank flist = Returns flist"
| "extract_flist_loop (ARCHIVE_EOF # rest) count ranks mfu_rank flist = Returns flist"
| "extract_flist_loop (ARCHIVE_ERROR r # rest) count ranks mfu_rank flist = Exits r"
| "extract_flist_loop (ARCHIVE_OK pos entry # rest) count ranks mfu_rank flist =
     extract_flist_loop rest (count + 1) ranks mfu_rank
       (if count mod ranks = mfu_rank then flist @ [entry] else flist)"

text \<open>
  \<open>open_r\<close> is the result of \<^verbatim>\<open>archive_read_open_filename\<close> (\<^verbatim>\<open>ARCHIVE_OK\<close> is 0); \<open>others\<close>
  is what the other ranks contribute to the final \<^verbatim>\<open>mfu_alltrue\<close>.  The local \<^verbatim>\<open>rc\<close> is
  \<^verbatim>\<open>MFU_SUCCESS\<close> from its initialisation to that call.\<close>

definition extract_flist ::
  "int \<Rightarrow> 'e next_header list \<Rightarrow> nat \<Rightarrow> nat \<Rightarrow> bool \<Rightarrow> (mfu_rc \<times> 'e list) outcome" where
  "extract_flist open_r hdrs ranks mfu_rank others =
     (if open_r \<noteq> 0 then Exits open_r
      else case extract_flist_loop hdrs 0 ranks mfu_rank [] of
             Exits r \<Rightarrow> Exits r
           | Returns flist \<Rightarrow>
               (let rc = MFU_SUCCESS
                in Returns (if \<not> mfu_alltrue (rc = MFU_SUCCESS) others then MFU_FAILURE else rc,
                            flist)))"

subsection \<open>\<^verbatim>\<open>mfu_flist_archive_extract\<close>\<close>

text \<open>
  The functions \<^verbatim>\<open>mfu_flist_archive_extract\<close> calls whose results decide its own, each with
  the arguments it is given that depend on the index or the scan: the number of entries,
  \<^verbatim>\<open>entry_start\<close> and \<^verbatim>\<open>entry_count\<close> of this rank, and the array of offsets.  The list of
  these calls, in order, is returned with the outcome.\<close>

datatype call =
    Call_read_entry_index
  | Call_index_entries
  | Call_extract_flist_offsets u64 u64 u64 "u64 list"
  | Call_extract_flist
  | Call_extract_files_offsets u64 u64 u64 "u64 list"
  | Call_extract_files_offsets_chunk u64 u64 u64
  | Call_extract_symlinks "u64 list"
  | Call_extract_files u64 u64 u64
  | Call_write_entry_index u64 "u64 list"

text \<open>
  What the extraction meets: the file system with the index file (or without), the archive
  as the scanner and \<^verbatim>\<open>extract_flist\<close> read it, the flags of the other ranks, and the return
  codes of the phases that read and write entries through libarchive or the chunk list, as
  functions of the arguments listed above.\<close>

record 'e extract_env =
  x_fs :: fs_env
  x_opened :: bool
  x_open_r :: int
  x_headers :: "'e next_header list"
  x_others :: bool
  x_extract_flist_offsets :: "u64 \<Rightarrow> u64 \<Rightarrow> u64 \<Rightarrow> u64 list \<Rightarrow> mfu_rc"
  x_extract_files_offsets :: "u64 \<Rightarrow> u64 \<Rightarrow> u64 \<Rightarrow> u64 list \<Rightarrow> mfu_rc"
  x_extract_files_offsets_chunk :: "u64 \<Rightarrow> u64 \<Rightarrow> u64 \<Rightarrow> mfu_rc"
  x_extract_symlinks :: "u64 list \<Rightarrow> mfu_rc"
  x_extract_files :: "u64 \<Rightarrow> u64 \<Rightarrow> u64 \<Rightarrow> mfu_rc"

text \<open>
  \<^verbatim>\<open>entries\<close> and \<^verbatim>\<open>offsets\<close> are what \<^verbatim>\<open>read_entry_index\<close> stored or, without an index,
  what \<^verbatim>\<open>index_entries\<close> stored (0 and \<^verbatim>\<open>NULL\<close> when both failed); they are divided among
  the ranks and handed to the phases that follow.  At the end the offsets found by the scan
  are saved: \<^verbatim>\<open>write_entry_index(filename, entry_count, &offsets[entry_start])\<close>.\<close>

definition mfu_flist_archive_extract ::
  "'e extract_env \<Rightarrow> string \<Rightarrow> bool \<Rightarrow> nat \<Rightarrow> nat \<Rightarrow> call list \<times> mfu_rc outcome" where
  "mfu_flist_archive_extract env filename extract_libarchive ranks mfu_rank =
     (let (ret1, entries1, offsets1) = read_entry_index (x_fs env) filename;
          have_index = (ret1 = MFU_SUCCESS);
          (ret2, entries, offsets) =
             (if have_index then (ret1, entries1, offsets1)
              else index_entries (x_opened env) (x_headers env));
          have_offsets = (ret2 = MFU_SUCCESS);
          (entry_start, entry_count) = entry_partition entries (int ranks) (int mfu_rank);
          calls1 = Call_read_entry_index # (if have_index then [] else [Call_index_entries]);
          calls2 = calls1 @ [if have_offsets
                             then Call_extract_flist_offsets entries entry_start entry_count offsets
                             else Call_extract_flist]
      in case (if have_offsets
               then Returns (x_extract_flist_offsets env entries entry_start entry_count offsets)
               else case extract_flist (x_open_r env) (x_headers env) ranks mfu_rank
                           (x_others env) of
                      Exits r \<Rightarrow> Exits r
                    | Returns (rc, flist) \<Rightarrow> Returns rc) of
           Exits r \<Rightarrow> (calls2, Exits r)
         | Returns ret \<Rightarrow>
             if ret \<noteq> MFU_SUCCESS then (calls2, Returns MFU_FAILURE)
             else
               (let (calls3, ret3) =
                      (if have_offsets then
                         (if extract_libarchive
                          then ([Call_extract_files_offsets entries entry_start entry_count offsets],
                                x_extract_files_offsets env entries entry_start entry_count offsets)
                          else ([Call_extract_files_offsets_chunk entries entry_start entry_count,
                                 Call_extract_symlinks offsets],
                                if x_extract_symlinks env offsets \<noteq> MFU_SUCCESS
                                then x_extract_symlinks env offsets
                                else x_extract_files_offsets_chunk env entries entry_start
                                       entry_count))
                       else ([Call_extract_files entries entry_start entry_count],
                             x_extract_files env entries entry_start entry_count));
                    rc = (if ret3 \<noteq> MFU_SUCCESS then MFU_FAILURE else MFU_SUCCESS);
                    calls4 = (if have_offsets \<and> \<not> have_index
                              then [Call_write_entry_index entry_count
                                      (take (unat entry_count) (drop (unat entry_start) offsets))]
                              else [])
                in (calls2 @ calls3 @ calls4, Returns rc)))"

section \<open>Entry headers\<close>

text \<open>
  The fields of a libarchive entry that \<^verbatim>\<open>encode_header\<close> sets; \<open>'st\<close> stands for the
  \<^verbatim>\<open>struct stat\<close> copied into it.\<close>

record 'st archive_entry =
  ae_pathname :: string
  ae_stat :: "'st option"
  ae_uname :: string
  ae_gname :: string
  ae_symlink :: "string option"

text \<open>
  The collaborators of \<^verbatim>\<open>encode_header\<close>: the relative path of an item
  (\<^verbatim>\<open>mfu_param_path_relative\<close>), \<^verbatim>\<open>archive_read_disk_entry_from_file\<close> (\<open>None\<close> when it does
  not return \<^verbatim>\<open>ARCHIVE_OK\<close>), \<^verbatim>\<open>mfu_lstat\<close>, the user and group names of the file list, the
  targets of the symlinks readable with \<^verbatim>\<open>readlink\<close>, whether
  \<^verbatim>\<open>archive_write_open_memory\<close> succeeds, and \<^verbatim>\<open>archive_write_header\<close> into a buffer of the
  given size: whether it returns \<^verbatim>\<open>ARCHIVE_OK\<close>, and the bytes it stores.\<close>

record 'st header_env =
  he_relative :: "string \<Rightarrow> string"
  he_from_file :: "string \<Rightarrow> 'st archive_entry \<Rightarrow> 'st archive_entry option"
  he_lstat :: "string \<Rightarrow> 'st"
  he_username :: "string \<Rightarrow> string"
  he_groupname :: "string \<Rightarrow> string"
  he_link_target :: "string \<rightharpoonup> string"
  he_open_memory :: bool
  he_write_header :: "'st archive_entry \<Rightarrow> nat \<Rightarrow> bool \<times> u8 list"

text \<open>
  \<^verbatim>\<open>mfu_readlink(path, buf, bufsize)\<close>: the first \<open>bufsize\<close> bytes of the target, with no
  sign of a truncation; \<open>None\<close> for the result -1.\<close>

definition mfu_readlink :: "'st header_env \<Rightarrow> string \<Rightarrow> nat \<Rightarrow> string option" where
  "mfu_readlink env path bufsize = map_option (take bufsize) (he_link_target env path)"

text \<open>
  The first part of \<^verbatim>\<open>encode_header\<close> (lines 288-357): the return code so far and the
  entry that is handed to \<^verbatim>\<open>archive_write_header\<close>.  \<open>path_max\<close> is \<^verbatim>\<open>PATH_MAX\<close>, a constant
  of the system headers; the buffer \<^verbatim>\<open>target\<close> has \<open>path_max + 1\<close> bytes and
  \<^verbatim>\<open>targetsize\<close> is \<open>path_max\<close>.\<close>

definition build_entry ::
  "'st header_env \<Rightarrow> nat \<Rightarrow> bool \<Rightarrow> flist_item \<Rightarrow> mfu_rc \<times> 'st archive_entry" where
  "build_entry env path_max preserve it =
     (let fname = item_name it;
          entry = \<lparr>ae_pathname = he_relative env fname, ae_stat = None, ae_uname = [],
                   ae_gname = [], ae_symlink = None\<rparr>
      in if preserve then
           (case he_from_file env fname entry of
              None \<Rightarrow> (MFU_FAILURE, entry)
            | Some entry' \<Rightarrow> (MFU_SUCCESS, entry'))
         else
           (let entry1 = entry\<lparr>ae_stat := Some (he_lstat env fname),
                               ae_uname := he_username env fname,
                               ae_gname := he_groupname env fname\<rparr>
            in if item_type it = MFU_TYPE_LINK then
                 (let targetsize = path_max
                  in case mfu_readlink env fname targetsize of
                       Some target \<Rightarrow>
                         if length target < targetsize
                         then (MFU_SUCCESS, entry1\<lparr>ae_symlink := Some target\<rparr>)
                         else (MFU_FAILURE, entry1)
                     | None \<Rightarrow> (MFU_FAILURE, entry1))
               else (MFU_SUCCESS, entry1)))"

text \<open>
  \<^verbatim>\<open>encode_header\<close>: the return code and the encoded header, whose length is the value
  stored in \<^verbatim>\<open>*outsize\<close>.\<close>

definition encode_header ::
  "'st header_env \<Rightarrow> nat \<Rightarrow> bool \<Rightarrow> nat \<Rightarrow> flist_item \<Rightarrow> mfu_rc \<times> u8 list" where
  "encode_header env path_max preserve bufsize it =
     (let (rc1, entry) = build_entry env path_max preserve it;
          rc2 = (if \<not> he_open_memory env then MFU_FAILURE else rc1);
          (ok, buf) = he_write_header env entry bufsize;
          rc3 = (if \<not> ok then MFU_FAILURE else rc2)
      in (rc3, buf))"

text \<open>
  \<^verbatim>\<open>mfu_pwrite(name, fd, buf, size, offset)\<close> on the archive: the number of bytes written,
  or -1, and the contents afterwards.\<close>

definition mfu_pwrite :: "bool \<Rightarrow> u8 list \<Rightarrow> u8 list \<Rightarrow> u64 \<Rightarrow> int \<times> u8 list" where
  "mfu_pwrite writable f buf pos =
     (if \<not> writable \<or> \<not> lseek_ok pos then (- 1, f)
      else (int (length buf), file_write f (unat pos) buf))"

text \<open>\<^verbatim>\<open>write_header\<close>, on the error flag and the archive contents of the state.\<close>

definition write_header ::
  "'st header_env \<Rightarrow> nat \<Rightarrow> bool \<Rightarrow> nat \<Rightarrow> bool \<Rightarrow> flist_item \<Rightarrow> u64 \<Rightarrow> copy_state
     \<Rightarrow> mfu_rc \<times> copy_state" where
  "write_header env path_max preserve bufsize writable it pos st =
     (let (encode_rc, buf) = encode_header env path_max preserve bufsize it
      in if encode_rc \<noteq> MFU_SUCCESS then (MFU_FAILURE, st\<lparr>DTAR_err := True\<rparr>)
         else (let (pwrite_rc, ar) = mfu_pwrite writable (archive st) buf pos
               in if pwrite_rc = - 1 then (MFU_FAILURE, st\<lparr>DTAR_err := True\<rparr>)
                  else (MFU_SUCCESS, st\<lparr>archive := ar\<rparr>)))"

section \<open>Size of the created archive\<close>

text \<open>
  The value of \<^verbatim>\<open>offset\<close> after the layout loop over the local list (lines 1474-1517),
  started at \<open>off\<close>, and the values stored in \<^verbatim>\<open>offsets[idx]\<close>.\<close>

fun layout_total :: "flist_item list \<Rightarrow> u64 \<Rightarrow> u64" where
  "layout_total [] off = off"
| "layout_total (it # rest) off = layout_total rest (off + entry_size it)"

fun layout_offsets :: "flist_item list \<Rightarrow> u64 \<Rightarrow> u64 list" where
  "layout_offsets [] off = []"
| "layout_offsets (it # rest) off = off # layout_offsets rest (off + entry_size it)"

text \<open>
  \<open>world ! r\<close> is the list rank \<open>r\<close> holds.  \<^verbatim>\<open>archive_size\<close> is the all-reduce sum of the
  local totals; \<^verbatim>\<open>final_size\<close> is the \<^verbatim>\<open>off_t\<close> the file is truncated to.\<close>

definition archive_size :: "flist_item list list \<Rightarrow> u64" where
  "archive_size world = MPI_Allreduce_sum (map (\<lambda>flist. layout_total flist 0) world)"

definition final_size :: "flist_item list list \<Rightarrow> u64" where
  "final_size world = archive_size world + 2 * 512"

text \<open>
  \<^verbatim>\<open>mfu_ftruncate(fd, length)\<close> and \<^verbatim>\<open>posix_fallocate(fd, 0, len)\<close>; both take signed
  arguments and refuse a negative one (and \<^verbatim>\<open>posix_fallocate\<close> a length of 0), and the
  source ignores what they return.\<close>

definition mfu_ftruncate :: "u8 list \<Rightarrow> u64 \<Rightarrow> u8 list" where
  "mfu_ftruncate f len =
     (if sint len < 0 then f else take (unat len) f @ replicate (unat len - length f) 0)"

definition posix_fallocate :: "u8 list \<Rightarrow> u64 \<Rightarrow> u8 list" where
  "posix_fallocate f len =
     (if sint len \<le> 0 then f else f @ replicate (unat len - length f) 0)"

text \<open>What rank 0 does to the archive file before the barrier (lines 1546-1559).\<close>

definition preallocate :: "u8 list \<Rightarrow> flist_item list list \<Rightarrow> u8 list" where
  "preallocate f world =
     (let f0 = mfu_ftruncate f 0;
          f1 = mfu_ftruncate f0 (final_size world)
      in posix_fallocate f1 (final_size world))"

text \<open>
  The trailer rank 0 writes after the data (lines 1693-1708): 1024 zero bytes at offset
  \<^verbatim>\<open>archive_size\<close>.  The result is the archive and whether \<^verbatim>\<open>DTAR_err\<close> is set by it.\<close>

definition write_trailer :: "bool \<Rightarrow> u8 list \<Rightarrow> flist_item list list \<Rightarrow> u8 list \<times> bool" where
  "write_trailer writable f world =
     (let buf = replicate 1024 0;
          (pwrite_rc, f') = mfu_pwrite writable f buf (archive_size world)
      in (f', pwrite_rc \<noteq> int (length buf)))"

text \<open>
  The archive file after the create path: rank 0 truncates and preallocates, the ranks
  write headers and file data (\<open>writes\<close>, each a position with the bytes written there), and
  rank 0 writes the trailer.\<close>

definition created_archive ::
  "u8 list \<Rightarrow> flist_item list list \<Rightarrow> (nat \<times> u8 list) list \<Rightarrow> u8 list" where
  "created_archive f world writes =
     fst (write_trailer True
            (foldl (\<lambda>f (pos, buf). file_write f pos buf) (preallocate f world) writes) world)"

section \<open>Arithmetic of 64-bit words read as natural numbers\<close>


lemma unat_word_of_int_u64:
  assumes "0 \<le> k" "k < 2 ^ 31"
  shows "unat (word_of_int k :: u64) = nat k"
proof -
  have "k < 2 ^ 64" using assms(2) by simp
  then have "take_bit 64 k = k" using assms(1) by (simp add: take_bit_int_eq_self)
  then show ?thesis by (simp add: unat_eq_nat_uint uint_word_of_int_eq)
qed

lemma unat_u64_less: "unat (w :: u64) < 2 ^ 64"
  using unsigned_less [of w, where 'a = nat] by simp

lemma unat_mult_u64:
  "unat a * unat b = X \<Longrightarrow> X < 2 ^ 64 \<Longrightarrow> unat (a * b :: u64) = X"
  using unat_mult_lem [of a b] by simp

lemma unat_add_u64:
  "unat a + unat b = X \<Longrightarrow> X < 2 ^ 64 \<Longrightarrow> unat (a + b :: u64) = X"
  using unat_add_lem [of a b] by simp

section \<open>Rounding to blocks of 512 bytes\<close>

lemma round_down_512: "(n::nat) div 512 * 512 < n \<longleftrightarrow> n mod 512 \<noteq> 0"
proof -
  define q r where "q = n div 512" and "r = n mod 512"
  have "n = q * 512 + r" by (simp add: q_def r_def)
  then show ?thesis unfolding q_def [symmetric] r_def [symmetric] by linarith
qed

lemma ceil_aux1: "0 < r \<Longrightarrow> r < 512 \<Longrightarrow> (q * 512 + r + 511) div 512 = q + (1::nat)"
  by (rule div_nat_eqI) simp_all

lemma ceil_aux0: "(q * 512 + 511) div 512 = (q::nat)"
  by (rule div_nat_eqI) simp_all

lemma round_up_512_pos:
  assumes "(n::nat) mod 512 \<noteq> 0"
  shows "n div 512 * 512 + 512 = (n + 511) div 512 * 512"
proof -
  have "(n div 512 * 512 + n mod 512 + 511) div 512 = n div 512 + 1"
    using assms by (intro ceil_aux1) simp_all
  then have "(n + 511) div 512 = n div 512 + 1" by simp
  then show ?thesis by simp
qed

lemma round_up_512_zero:
  assumes "(n::nat) mod 512 = 0"
  shows "n div 512 * 512 = (n + 511) div 512 * 512"
proof -
  have "(n div 512 * 512 + 511) div 512 = n div 512" by (rule ceil_aux0)
  moreover have "n div 512 * 512 = n" using assms by auto
  ultimately show ?thesis by simp
qed

lemma unat_div512_mul:
  "unat ((S :: u64) div 512 * 512) = unat S div 512 * 512"
proof -
  have d: "unat (S div 512) = unat S div 512" by (simp add: unat_div)
  have "unat S div 512 * 512 \<le> unat S" by simp
  also have "\<dots> < 2 ^ 64" using unsigned_less [of S, where 'a = nat] by simp
  finally have "unat (S div 512) * unat (512 :: u64) < 2 ^ LENGTH(64)"
    by (simp add: d)
  then have "unat (S div 512 * 512) = unat (S div 512) * unat (512 :: u64)"
    by (simp only: unat_mult_lem [THEN iffD1])
  then show ?thesis by (simp add: d)
qed

lemma fsize_padded_unat:
  assumes "unat S \<le> 2 ^ 64 - 512"
  shows "unat (fsize_padded S) = (unat S + 511) div 512 * 512"
proof -
  let ?p = "S div 512 * 512"
  have p: "unat ?p = unat S div 512 * 512" by (rule unat_div512_mul)
  have lt: "?p < S \<longleftrightarrow> unat S mod 512 \<noteq> 0"
    unfolding word_less_nat_alt p by (rule round_down_512)
  show ?thesis
  proof (cases "?p < S")
    case True
    then have m: "unat S mod 512 \<noteq> 0" using lt by blast
    have "unat S div 512 * 512 < unat S" using m round_down_512 [of "unat S"] by blast
    with assms have b: "unat S div 512 * 512 + 512 < 2 ^ 64" by simp
    have "unat (?p + 512) = unat S div 512 * 512 + 512"
      by (rule unat_add_u64) (simp add: p, rule b)
    then have "unat (?p + 512) = (unat S + 511) div 512 * 512"
      by (simp only: round_up_512_pos [OF m])
    then show ?thesis using True by (simp add: fsize_padded_def Let_def)
  next
    case False
    then have m: "unat S mod 512 = 0" using lt by blast
    have "unat ?p = (unat S + 511) div 512 * 512"
      unfolding p by (rule round_up_512_zero [OF m])
    then show ?thesis using False by (simp add: fsize_padded_def Let_def)
  qed
qed


lemma round_up_512_bounds:
  "(n::nat) \<le> (n + 511) div 512 * 512 \<and> (n + 511) div 512 * 512 < n + 512"
proof (cases "n mod 512 = 0")
  case True
  have "n div 512 * 512 = n" using True by auto
  then show ?thesis using round_up_512_zero [OF True] by simp
next
  case False
  have "n div 512 * 512 < n" using False round_down_512 [of n] by blast
  moreover have "n < n div 512 * 512 + 512"
  proof -
    have "n mod 512 < 512" by simp
    then show ?thesis using div_mult_mod_eq [of n 512] by linarith
  qed
  ultimately show ?thesis using round_up_512_pos [OF False] by simp
qed

text \<open>
  Claim C2.  For a regular file whose size \<open>S\<close> leaves room for one more block below
  \<open>2\<^sup>6\<^sup>4\<close> (every size a file system reports does: \<^verbatim>\<open>st_size\<close> is a signed 64-bit
  \<^verbatim>\<open>off_t\<close>), the padded content size is \<open>\<lceil>S / 512\<rceil> * 512\<close>, it is at least \<open>S\<close> and
  exceeds \<open>S\<close> by less than 512; for directories and symlinks it is 0; and for every item
  the entry size is the header size plus the padded content size.\<close>

theorem content_padded_correct:
  "(item_type it = MFU_TYPE_FILE \<and> unat (item_size it) \<le> 2 ^ 64 - 512 \<longrightarrow>
       unat (content_padded it) = (unat (item_size it) + 511) div 512 * 512
     \<and> unat (item_size it) \<le> unat (content_padded it)
     \<and> unat (content_padded it) - unat (item_size it) < 512)
   \<and> (item_type it = MFU_TYPE_DIR \<or> item_type it = MFU_TYPE_LINK \<longrightarrow>
       content_padded it = 0)
   \<and> entry_size it = header_size it + content_padded it"
proof (intro conjI impI)
  assume a: "item_type it = MFU_TYPE_FILE \<and> unat (item_size it) \<le> 2 ^ 64 - 512"
  then have c: "unat (content_padded it) = (unat (item_size it) + 511) div 512 * 512"
    by (simp add: content_padded_def fsize_padded_unat)
  show "unat (content_padded it) = (unat (item_size it) + 511) div 512 * 512" by (rule c)
  show "unat (item_size it) \<le> unat (content_padded it)"
    unfolding c using round_up_512_bounds [of "unat (item_size it)"] by blast
  show "unat (content_padded it) - unat (item_size it) < 512"
    unfolding c using round_up_512_bounds [of "unat (item_size it)"] by linarith
next
  assume "item_type it = MFU_TYPE_DIR \<or> item_type it = MFU_TYPE_LINK"
  then show "content_padded it = 0" by (auto simp: content_padded_def)
next
  show "entry_size it = header_size it + content_padded it"
    by (simp add: entry_size_def header_size_def content_padded_def)
qed

theorem content_padded_correct_witness:
  "item_type \<lparr>item_name = ''a'', item_type = MFU_TYPE_FILE, item_size = 13, item_hdr = 512\<rparr>
     = MFU_TYPE_FILE
   \<and> unat (item_size \<lparr>item_name = ''a'', item_type = MFU_TYPE_FILE, item_size = 13,
                     item_hdr = 512\<rparr>) \<le> 2 ^ 64 - 512
   \<and> unat (content_padded \<lparr>item_name = ''a'', item_type = MFU_TYPE_FILE, item_size = 13,
                          item_hdr = 512\<rparr>) = 512
   \<and> item_type \<lparr>item_name = ''d'', item_type = MFU_TYPE_DIR, item_size = 4096, item_hdr = 512\<rparr>
     = MFU_TYPE_DIR
   \<and> content_padded \<lparr>item_name = ''d'', item_type = MFU_TYPE_DIR, item_size = 4096,
                    item_hdr = 512\<rparr> = 0"
  using content_padded_correct [of "\<lparr>item_name = ''a'', item_type = MFU_TYPE_FILE, item_size = 13, item_hdr = 512\<rparr>"]
    content_padded_correct [of "\<lparr>item_name = ''d'', item_type = MFU_TYPE_DIR, item_size = 4096, item_hdr = 512\<rparr>"]
  by simp

section \<open>Properties of the entry partition\<close>

lemma ceil_div_aux:
  "0 < m \<Longrightarrow> m < R \<Longrightarrow> (q * R + m + R - 1) div R = q + (1::nat)"
proof (rule div_nat_eqI)
  assume a: "0 < m" "m < R"
  have e: "R * (q + 1) = q * R + R" by (simp add: algebra_simps)
  show "R * (q + 1) \<le> q * R + m + R - 1" unfolding e using a by linarith
  have e2: "R * Suc (q + 1) = q * R + R + R" by (simp add: algebra_simps)
  show "q * R + m + R - 1 < R * Suc (q + 1)" unfolding e2 using a by linarith
qed

lemma ceil_div_pos:
  assumes "0 < (R::nat)" "0 < E mod R"
  shows "(E + R - 1) div R = E div R + 1"
proof -
  have "(E div R * R + E mod R + R - 1) div R = E div R + 1"
    using assms by (intro ceil_div_aux) simp_all
  then show ?thesis by simp
qed

lemma entry_partition_unat:
  assumes R: "0 < ranks" "ranks < 2 ^ 31" and r: "0 \<le> mfu_rank" "mfu_rank < ranks"
  shows "entry_count entries ranks mfu_rank =
           (if nat mfu_rank < unat entries mod nat ranks
            then unat entries div nat ranks + 1 else unat entries div nat ranks)
       \<and> entry_start entries ranks mfu_rank =
           nat mfu_rank * (unat entries div nat ranks)
             + min (nat mfu_rank) (unat entries mod nat ranks)"
proof -
  define Rw rw where "Rw = (word_of_int ranks :: u64)" and "rw = (word_of_int mfu_rank :: u64)"
  define E Rn rn q m where "E = unat entries" and "Rn = nat ranks" and "rn = nat mfu_rank"
    and "q = E div Rn" and "m = E mod Rn"
  define per remw where "per = entries div Rw" and "remw = entries - per * Rw"
  have uR: "unat Rw = Rn" unfolding Rw_def Rn_def using R by (simp add: unat_word_of_int_u64)
  have ur: "unat rw = rn" unfolding rw_def rn_def using R r by (simp add: unat_word_of_int_u64)
  have Rpos: "0 < Rn" and rlt: "rn < Rn" using R r by (simp_all add: Rn_def rn_def)
  have E64: "E < 2 ^ 64" unfolding E_def by (rule unat_u64_less)
  have Eqm: "E = q * Rn + m" by (simp add: q_def m_def)
  have mlt: "m < Rn" using Rpos by (simp add: m_def)
  have uper: "unat per = q" by (simp add: per_def unat_div uR q_def E_def)
  have qR: "q * Rn \<le> E" using Eqm by linarith
  have qle: "q \<le> q * Rn" using Rpos by simp
  have q1: "q + 1 < 2 ^ 64" if "0 < m" using that Eqm qle E64 by linarith
  have uper1: "unat (per + 1) = q + 1" if "0 < m"
    by (rule unat_add_u64) (simp add: uper, rule q1 [OF that])
  have rq: "rn * q \<le> q * Rn"
    using mult_le_mono1 [of rn Rn q] rlt by (simp add: mult.commute)
  have mq: "m * q \<le> q * Rn"
    using mult_le_mono1 [of m Rn q] mlt by (simp add: mult.commute)
  have uprod: "unat (per * Rw) = q * Rn"
  proof (rule unat_mult_u64)
    show "unat per * unat Rw = q * Rn" by (simp add: uper uR)
    show "q * Rn < 2 ^ 64" using qR E64 by linarith
  qed
  have "per * Rw \<le> entries" unfolding word_le_nat_alt uprod using qR by (simp add: E_def)
  then have "unat remw = E - q * Rn"
    unfolding remw_def by (simp add: unat_sub uprod E_def)
  then have urem: "unat remw = m" using Eqm by linarith
  have cmp: "rw < remw \<longleftrightarrow> rn < m" by (simp add: word_less_nat_alt ur urem)
  have part: "entry_partition entries ranks mfu_rank =
      (if rw < remw then (rw * (per + 1), per + 1)
       else (remw * (per + 1) + (rw - remw) * per, per))"
    by (simp add: entry_partition_def Let_def Rw_def rw_def per_def remw_def)
  have res: "entry_count entries ranks mfu_rank = (if rn < m then q + 1 else q)
     \<and> entry_start entries ranks mfu_rank = rn * q + min rn m"
  proof (cases "rn < m")
    case True
    then have mpos: "0 < m" by simp
    have e: "rn * (q + 1) = rn * q + rn" by simp
    have "unat (rw * (per + 1)) = rn * (q + 1)"
    proof (rule unat_mult_u64)
      show "unat rw * unat (per + 1) = rn * (q + 1)" by (simp only: ur uper1 [OF mpos])
      show "rn * (q + 1) < 2 ^ 64" unfolding e using rq True Eqm E64 by linarith
    qed
    then show ?thesis using True cmp uper1 [OF mpos]
      by (simp add: part entry_count_def entry_start_def min_def)
  next
    case False
    then have mr: "m \<le> rn" by simp
    have "remw \<le> rw" using mr by (simp add: word_le_nat_alt ur urem)
    then have udiff: "unat (rw - remw) = rn - m" by (simp add: unat_sub ur urem)
    have dq: "(rn - m) * q + m * q = rn * q"
      using mr by (simp flip: add_mult_distrib)
    have ud: "unat ((rw - remw) * per) = (rn - m) * q"
    proof (rule unat_mult_u64)
      show "unat (rw - remw) * unat per = (rn - m) * q" by (simp only: udiff uper)
      show "(rn - m) * q < 2 ^ 64" using dq rq qR E64 by linarith
    qed
    have um: "unat (remw * (per + 1)) = m * q + m"
    proof (cases "m = 0")
      case True
      then have "remw = 0" using urem by (simp add: unat_eq_zero)
      then show ?thesis using True by simp
    next
      case mn: False
      then have mpos: "0 < m" by simp
      have e: "m * (q + 1) = m * q + m" by simp
      show ?thesis
      proof (rule unat_mult_u64)
        show "unat remw * unat (per + 1) = m * q + m" by (simp only: urem uper1 [OF mpos] e)
        show "m * q + m < 2 ^ 64" using mq Eqm E64 by linarith
      qed
    qed
    have "unat (remw * (per + 1) + (rw - remw) * per) = rn * q + m"
    proof (rule unat_add_u64)
      show "unat (remw * (per + 1)) + unat ((rw - remw) * per) = rn * q + m"
        unfolding um ud using dq by linarith
      show "rn * q + m < 2 ^ 64" using rq Eqm E64 by linarith
    qed
    then show ?thesis using False cmp uper mr
      by (simp add: part entry_count_def entry_start_def min_def)
  qed
  then show ?thesis by (simp add: rn_def m_def q_def E_def Rn_def)
qed


lemma prefix_mono:
  fixes s c :: "nat \<Rightarrow> nat"
  assumes step: "\<And>r. r < R \<Longrightarrow> s (Suc r) = s r + c r"
  shows "k \<le> R \<Longrightarrow> j \<le> k \<Longrightarrow> s j \<le> s k"
proof (induction k)
  case 0
  then show ?case by simp
next
  case (Suc k)
  show ?case
  proof (cases "j = Suc k")
    case True
    then show ?thesis by simp
  next
    case False
    then have "j \<le> k" using Suc.prems by simp
    then have "s j \<le> s k" using Suc by simp
    moreover have "s (Suc k) = s k + c k" using Suc.prems by (intro step) simp
    ultimately show ?thesis by simp
  qed
qed

lemma prefix_cover:
  fixes s c :: "nat \<Rightarrow> nat"
  assumes zero: "s 0 = 0" and step: "\<And>r. r < R \<Longrightarrow> s (Suc r) = s r + c r"
    and i: "i < s R"
  shows "\<exists>!r. r < R \<and> s r \<le> i \<and> i < s r + c r"
proof -
  have ex: "\<exists>r. r < R \<and> s r \<le> i \<and> i < s r + c r"
  proof (rule ccontr)
    assume no: "\<not> ?thesis"
    have "k \<le> R \<Longrightarrow> s k \<le> i" for k
    proof (induction k)
      case 0
      then show ?case by (simp add: zero)
    next
      case (Suc k)
      then have "k < R" and "s k \<le> i" by simp_all
      then have "\<not> i < s k + c k" using no by blast
      then show ?case using step [OF \<open>k < R\<close>] by simp
    qed
    then have "s R \<le> i" by simp
    then show False using i by simp
  qed
  have uniq: "a = b" if a: "a < R" "s a \<le> i" "i < s a + c a"
    and b: "b < R" "s b \<le> i" "i < s b + c b" for a b
  proof (rule ccontr)
    assume "a \<noteq> b"
    then consider "a < b" | "b < a" by linarith
    then show False
    proof cases
      case 1
      then have "s (Suc a) \<le> s b"
        using prefix_mono [of R s c b "Suc a"] step b(1) by simp
      then show False using step [OF a(1)] a(3) b(2) by linarith
    next
      case 2
      then have "s (Suc b) \<le> s a"
        using prefix_mono [of R s c a "Suc b"] step a(1) by simp
      then show False using step [OF b(1)] b(3) a(2) by linarith
    qed
  qed
  show ?thesis using ex uniq by blast
qed


text \<open>
  Claim C3.  For every entry count \<open>E\<close> and every rank count \<open>R \<ge> 1\<close> (a C \<^verbatim>\<open>int\<close>), the
  ranks \<open>r < E mod R\<close> are given \<open>\<lceil>E/R\<rceil>\<close> entries and the others \<open>\<lfloor>E/R\<rfloor>\<close>; rank 0
  starts at entry 0, each rank starts where the rank before it ends, the last rank ends at
  \<open>E\<close>, and every entry index below \<open>E\<close> lies in the range of exactly one rank.\<close>

theorem entry_partition_correct:
  assumes R: "0 < ranks" "ranks < 2 ^ 31"
  shows "(\<forall>r. 0 \<le> r \<and> r < ranks \<longrightarrow>
            entry_count entries ranks r =
              (if nat r < unat entries mod nat ranks
               then (unat entries + nat ranks - 1) div nat ranks
               else unat entries div nat ranks))
       \<and> entry_start entries ranks 0 = 0
       \<and> (\<forall>r. 0 \<le> r \<and> r + 1 < ranks \<longrightarrow>
            entry_start entries ranks (r + 1) =
              entry_start entries ranks r + entry_count entries ranks r)
       \<and> entry_start entries ranks (ranks - 1) + entry_count entries ranks (ranks - 1)
            = unat entries
       \<and> (\<forall>i < unat entries. \<exists>!r. 0 \<le> r \<and> r < ranks \<and>
            entry_start entries ranks r \<le> i \<and>
            i < entry_start entries ranks r + entry_count entries ranks r)"
proof -
  define E Rn q m where "E = unat entries" and "Rn = nat ranks"
    and "q = E div Rn" and "m = E mod Rn"
  define s c where "s = (\<lambda>k::nat. k * q + min k m)"
    and "c = (\<lambda>k::nat. if k < m then q + 1 else q)"
  have Rpos: "0 < Rn" using R by (simp add: Rn_def)
  have mlt: "m < Rn" using Rpos by (simp add: m_def)
  have Eqm: "E = q * Rn + m" by (simp add: q_def m_def)
  have cnt: "entry_count entries ranks r = c (nat r)"
    and st: "entry_start entries ranks r = s (nat r)" if "0 \<le> r" "r < ranks" for r
    using entry_partition_unat [OF R that, of entries]
    by (simp_all add: s_def c_def q_def m_def E_def Rn_def)
  have zero: "s 0 = 0" by (simp add: s_def)
  have step: "s (Suc k) = s k + c k" for k
    by (simp add: s_def c_def min_def)
  have total: "s Rn = E" using mlt Eqm by (simp add: s_def min_def mult.commute)
  have c1: "\<forall>r. 0 \<le> r \<and> r < ranks \<longrightarrow>
            entry_count entries ranks r =
              (if nat r < unat entries mod nat ranks
               then (unat entries + nat ranks - 1) div nat ranks
               else unat entries div nat ranks)"
  proof (intro allI impI)
    fix r assume r: "0 \<le> r \<and> r < ranks"
    have "(E + Rn - 1) div Rn = q + 1" if "nat r < m"
      using that ceil_div_pos [of Rn E] Rpos by (simp add: q_def m_def)
    then show "entry_count entries ranks r =
              (if nat r < unat entries mod nat ranks
               then (unat entries + nat ranks - 1) div nat ranks
               else unat entries div nat ranks)"
      using r cnt [of r] by (simp add: c_def q_def m_def E_def Rn_def)
  qed
  have c2: "entry_start entries ranks 0 = 0" using st [of 0] R zero by simp
  have c3: "\<forall>r. 0 \<le> r \<and> r + 1 < ranks \<longrightarrow>
            entry_start entries ranks (r + 1) =
              entry_start entries ranks r + entry_count entries ranks r"
  proof (intro allI impI)
    fix r :: int assume r: "0 \<le> r \<and> r + 1 < ranks"
    have "nat (r + 1) = Suc (nat r)" using r by arith
    then show "entry_start entries ranks (r + 1) =
              entry_start entries ranks r + entry_count entries ranks r"
      using r st [of r] st [of "r + 1"] cnt [of r] step [of "nat r"] by simp
  qed
  have "Suc (nat (ranks - 1)) = Rn" using R by (simp add: Rn_def)
  then have "s (nat (ranks - 1)) + c (nat (ranks - 1)) = E"
    using step [of "nat (ranks - 1)"] total by simp
  then have c4: "entry_start entries ranks (ranks - 1) + entry_count entries ranks (ranks - 1)
            = unat entries"
    using R st [of "ranks - 1"] cnt [of "ranks - 1"] by (simp add: E_def)
  have c5: "\<forall>i < unat entries. \<exists>!r. 0 \<le> r \<and> r < ranks \<and>
            entry_start entries ranks r \<le> i \<and>
            i < entry_start entries ranks r + entry_count entries ranks r"
  proof (intro allI impI)
    fix i assume "i < unat entries"
    then have "i < s Rn" by (simp add: total E_def)
    then have ex1: "\<exists>!k. k < Rn \<and> s k \<le> i \<and> i < s k + c k"
      using prefix_cover [of s Rn c i] zero step by simp
    then obtain k where k: "k < Rn" "s k \<le> i" "i < s k + c k" by blast
    have kr: "0 \<le> int k \<and> int k < ranks" using k(1) by (simp add: Rn_def)
    show "\<exists>!r. 0 \<le> r \<and> r < ranks \<and>
            entry_start entries ranks r \<le> i \<and>
            i < entry_start entries ranks r + entry_count entries ranks r"
    proof (rule ex1I [of _ "int k"])
      show "0 \<le> int k \<and> int k < ranks \<and> entry_start entries ranks (int k) \<le> i \<and>
            i < entry_start entries ranks (int k) + entry_count entries ranks (int k)"
        using kr k st [of "int k"] cnt [of "int k"] by simp
    next
      fix r assume r: "0 \<le> r \<and> r < ranks \<and> entry_start entries ranks r \<le> i \<and>
            i < entry_start entries ranks r + entry_count entries ranks r"
      then have "nat r < Rn \<and> s (nat r) \<le> i \<and> i < s (nat r) + c (nat r)"
        using st [of r] cnt [of r] by (simp add: Rn_def)
      then have "nat r = k" using ex1 k by blast
      moreover have "0 \<le> r" using r by blast
      ultimately show "r = int k" by auto
    qed
  qed
  show ?thesis using c1 c2 c3 c4 c5 by blast
qed

theorem entry_partition_correct_witness:
  "(0::int) < 4 \<and> (4::int) < 2 ^ 31
   \<and> entry_start 10 4 0 = 0
   \<and> entry_start 10 4 (4 - 1) + entry_count 10 4 (4 - 1) = unat (10 :: u64)"
proof -
  have h: "(0::int) < 4" "(4::int) < 2 ^ 31" by simp_all
  show ?thesis using entry_partition_correct [OF h, of 10] h by blast
qed

section \<open>Work items: encoding and decoding\<close>

lemmas decode_eval = DTAR_decode_operation_def scan_field_def strtok_def sscanf_u64_def
  sscanf_int_def scan_signed_def scan_digits_def is_space_def is_digit_def digit_val_def

lemmas encode_eval = DTAR_encode_operation_def COPY_DATA_def print_u64_def print_int_def
  dec_digits.simps digit_char_def

lemma of_char_digit_char: "d < 10 \<Longrightarrow> (of_char (digit_char d) :: nat) = 48 + d"
proof -
  assume "d < 10"
  then consider "d = 0" | "d = 1" | "d = 2" | "d = 3" | "d = 4" | "d = 5" | "d = 6"
    | "d = 7" | "d = 8" | "d = 9" by atomize_elim arith
  then show ?thesis by cases (simp_all add: digit_char_def)
qed

lemma is_digit_digit_char: "d < 10 \<Longrightarrow> is_digit (digit_char d)"
  by (simp add: is_digit_def of_char_digit_char)

lemma digit_val_digit_char: "d < 10 \<Longrightarrow> digit_val (digit_char d) = d"
  by (simp add: digit_val_def of_char_digit_char)

lemma dec_digits_digits: "\<forall>c \<in> set (dec_digits n). is_digit c"
proof (induction n rule: dec_digits.induct)
  case (1 n)
  show ?case
  proof (cases "n < 10")
    case True
    then show ?thesis by (simp add: dec_digits.simps [of n] is_digit_digit_char)
  next
    case False
    then show ?thesis using 1 by (simp add: dec_digits.simps [of n] is_digit_digit_char)
  qed
qed

lemma dec_digits_nonempty: "dec_digits n \<noteq> []"
  by (simp add: dec_digits.simps [of n])

lemma dec_digits_value: "foldl (\<lambda>a c. 10 * a + digit_val c) 0 (dec_digits n) = n"
proof (induction n rule: dec_digits.induct)
  case (1 n)
  show ?case
  proof (cases "n < 10")
    case True
    then show ?thesis by (simp add: dec_digits.simps [of n] digit_val_digit_char)
  next
    case False
    then show ?thesis using 1 by (simp add: dec_digits.simps [of n] digit_val_digit_char)
  qed
qed

lemma scan_digits_dec: "scan_digits (dec_digits n) = Some n"
proof -
  have tw: "takeWhile is_digit (dec_digits n) = dec_digits n"
    using dec_digits_digits [of n] by (simp add: takeWhile_eq_all_conv)
  show ?thesis
    unfolding scan_digits_def Let_def tw by (simp add: dec_digits_nonempty dec_digits_value)
qed

lemma is_digit_not_special:
  "is_digit c \<Longrightarrow> \<not> is_space c \<and> c \<noteq> CHR ''-'' \<and> c \<noteq> CHR ''+'' \<and> c \<noteq> CHR '':''"
  by (auto simp: is_digit_def is_space_def)

lemma dec_digits_hd: "\<exists>c r. dec_digits n = c # r \<and> is_digit c"
  using dec_digits_nonempty [of n] dec_digits_digits [of n]
  by (cases "dec_digits n") auto

lemma scan_signed_dec: "scan_signed (dec_digits n) = Some (int n)"
proof -
  obtain c r where cr: "dec_digits n = c # r" "is_digit c" using dec_digits_hd by blast
  have "scan_digits (c # r) = Some n" using scan_digits_dec [of n] cr(1) by simp
  then show ?thesis using is_digit_not_special [OF cr(2)]
    by (simp add: scan_signed_def cr(1))
qed

lemma scan_signed_neg: "scan_signed (CHR ''-'' # dec_digits n) = Some (- int n)"
  by (simp add: scan_signed_def is_space_def scan_digits_dec)

lemma sscanf_u64_print: "sscanf_u64 (print_u64 v) = Some v"
  by (simp add: sscanf_u64_def print_u64_def scan_signed_dec)

lemma sscanf_int_print: "sscanf_int (print_int v) = Some v"
proof (cases "sint v < 0")
  case True
  then have "- int (nat (- sint v)) = sint v" by simp
  then show ?thesis using True
    by (simp add: sscanf_int_def print_int_def scan_signed_neg)
next
  case False
  then show ?thesis by (simp add: sscanf_int_def print_int_def scan_signed_dec)
qed

lemma no_colon_dec: "CHR '':'' \<notin> set (dec_digits n)"
  using dec_digits_digits [of n] is_digit_not_special by blast

lemma no_colon_print_u64: "CHR '':'' \<notin> set (print_u64 v)"
  by (simp add: print_u64_def no_colon_dec)

lemma no_colon_print_int: "CHR '':'' \<notin> set (print_int v)"
  by (simp add: print_int_def no_colon_dec)

lemma print_nonempty: "print_u64 v \<noteq> []" "print_int w \<noteq> []"
  by (simp_all add: print_u64_def print_int_def dec_digits_nonempty)

lemma strtok_field:
  assumes "tok \<noteq> []" "CHR '':'' \<notin> set tok"
  shows "strtok (Some (tok @ CHR '':'' # rest)) = Some (tok, Some rest)"
proof -
  obtain c r where cr: "tok = c # r" using assms(1) by (cases tok) auto
  have c: "c \<noteq> CHR '':''" using assms(2) cr by auto
  have d: "dropWhile (\<lambda>c. c = CHR '':'') (tok @ CHR '':'' # rest) = tok @ CHR '':'' # rest"
    using c by (simp add: cr)
  have t: "takeWhile (\<lambda>c. c \<noteq> CHR '':'') (tok @ CHR '':'' # rest) = tok"
    using assms(2) by (subst takeWhile_append2) auto
  have e: "dropWhile (\<lambda>c. c \<noteq> CHR '':'') (tok @ CHR '':'' # rest) = CHR '':'' # rest"
    using assms(2) by (subst dropWhile_append2) auto
  show ?thesis unfolding strtok_def by (simp add: d t e Let_def)
qed

lemma scan_field_print_u64:
  "scan_field sscanf_u64 (Some (print_u64 v @ CHR '':'' # rest)) k = k v (Some rest)"
  by (simp add: scan_field_def strtok_field print_nonempty no_colon_print_u64 sscanf_u64_print)

lemma scan_field_print_int:
  "scan_field sscanf_int (Some (print_int v @ CHR '':'' # rest)) k = k v (Some rest)"
  by (simp add: scan_field_def strtok_field print_nonempty no_colon_print_int sscanf_int_print)

lemma sint_of_nat_s32:
  assumes "n < 2 ^ 31"
  shows "sint (word_of_nat n :: s32) = int n"
proof -
  have "int n < 2 ^ 31" using assms by simp
  then have "signed_take_bit 31 (int n) = int n"
    by (rule signed_take_bit_int_eq_self [rotated]) simp
  then show ?thesis using sint_sbintrunc' [of "int n", where 'a = 32] by simp
qed

lemma decode_encode_operation:
  assumes enc: "DTAR_encode_operation opsize cd opnd fsize chunk_idx off = Inr s"
    and sz: "opsize \<le> 2 ^ 31"
  shows "DTAR_decode_operation s =
           Inr \<lparr>file_size = fsize, chunk_index = chunk_idx, offset = off, code = cd,
                operand = opnd\<rparr>"
proof -
  let ?s = "print_u64 fsize @ CHR '':'' # print_u64 chunk_idx @ CHR '':'' # print_u64 off
              @ CHR '':'' # print_int cd @ CHR '':'' # print_int (word_of_nat (length opnd))
              @ CHR '':'' # opnd"
  have s: "s = ?s" and len: "length ?s < opsize"
    using enc by (auto simp: DTAR_encode_operation_def Let_def split: if_splits)
  have "length opnd \<le> length ?s" by simp
  then have "length opnd < 2 ^ 31" using len sz by linarith
  then have l: "sint (word_of_nat (length opnd) :: s32) = int (length opnd)"
    by (rule sint_of_nat_s32)
  show ?thesis
    unfolding s DTAR_decode_operation_def
    by (simp add: scan_field_print_u64 scan_field_print_int l)
qed


text \<open>
  Claim C10.  Whenever \<^verbatim>\<open>DTAR_encode_operation\<close> returns a work item (the string is shorter
  than the maximum length \<open>opsize\<close>, itself at most \<open>2\<^sup>3\<^sup>1\<close> so that the operand length is
  an \<^verbatim>\<open>int\<close>), \<^verbatim>\<open>DTAR_decode_operation\<close> of that string returns the work structure with
  the original file size, chunk index, offset, operation code and operand.\<close>

theorem work_item_roundtrip:
  "DTAR_encode_operation opsize cd opnd fsize chunk_idx off = Inr s \<Longrightarrow> opsize \<le> 2 ^ 31 \<Longrightarrow>
   DTAR_decode_operation s =
     Inr \<lparr>file_size = fsize, chunk_index = chunk_idx, offset = off, code = cd, operand = opnd\<rparr>"
proof -
  assume enc: "DTAR_encode_operation opsize cd opnd fsize chunk_idx off = Inr s"
    and sz: "opsize \<le> 2 ^ 31"
  define len :: s32 where "len = word_of_nat (length opnd)"
  define tl5 where "tl5 = print_int len @ CHR '':'' # opnd"
  define tl4 where "tl4 = print_int cd @ CHR '':'' # tl5"
  define tl3 where "tl3 = print_u64 off @ CHR '':'' # tl4"
  define tl2 where "tl2 = print_u64 chunk_idx @ CHR '':'' # tl3"
  have s: "s = print_u64 fsize @ CHR '':'' # tl2" and fits: "length s < opsize"
    using enc
    by (auto simp: DTAR_encode_operation_def Let_def tl2_def tl3_def tl4_def tl5_def len_def
             split: if_splits)
  have "length opnd \<le> length s"
    by (simp add: s tl2_def tl3_def tl4_def tl5_def)
  then have "length opnd < 2 ^ 31" using fits sz by linarith
  then have op_len: "sint len = int (length opnd)"
    unfolding len_def by (rule sint_of_nat_s32)
  have "DTAR_decode_operation s =
          scan_field sscanf_u64 (Some tl2) (\<lambda>chunk_idx sv2.
          scan_field sscanf_u64 sv2 (\<lambda>off sv3.
          scan_field sscanf_int sv3 (\<lambda>cd sv4.
          scan_field sscanf_int sv4 (\<lambda>op_len sv5.
            (case sv5 of
               None \<Rightarrow> Inl MEMORY_FAULT
             | Some rest \<Rightarrow>
                 Inr \<lparr>file_size = fsize, chunk_index = chunk_idx, offset = off, code = cd,
                      operand =
                        (if sint op_len < 0 then rest else take (nat (sint op_len)) rest)\<rparr>)))))"
    unfolding DTAR_decode_operation_def s by (simp only: scan_field_print_u64)
  also have "\<dots> =
          scan_field sscanf_int (Some tl4) (\<lambda>cd sv4.
          scan_field sscanf_int sv4 (\<lambda>op_len sv5.
            (case sv5 of
               None \<Rightarrow> Inl MEMORY_FAULT
             | Some rest \<Rightarrow>
                 Inr \<lparr>file_size = fsize, chunk_index = chunk_idx, offset = off, code = cd,
                      operand =
                        (if sint op_len < 0 then rest else take (nat (sint op_len)) rest)\<rparr>)))"
    unfolding tl2_def tl3_def by (simp only: scan_field_print_u64)
  also have "\<dots> =
          Inr \<lparr>file_size = fsize, chunk_index = chunk_idx, offset = off, code = cd,
               operand = (if sint len < 0 then opnd else take (nat (sint len)) opnd)\<rparr>"
    unfolding tl4_def tl5_def by (simp add: scan_field_print_int)
  also have "(if sint len < 0 then opnd else take (nat (sint len)) opnd) = opnd"
    by (simp add: op_len)
  finally show ?thesis .
qed

theorem work_item_roundtrip_witness:
  "DTAR_encode_operation 4096 COPY_DATA ''/a/b:c'' 13 0 512 = Inr ''13:0:512:0:6:/a/b:c''
   \<and> (4096::nat) \<le> 2 ^ 31
   \<and> DTAR_decode_operation ''13:0:512:0:6:/a/b:c'' =
       Inr \<lparr>file_size = 13, chunk_index = 0, offset = 512, code = COPY_DATA,
            operand = ''/a/b:c''\<rparr>"
proof -
  have e: "DTAR_encode_operation 4096 COPY_DATA ''/a/b:c'' 13 0 512 = Inr ''13:0:512:0:6:/a/b:c''"
    by (simp add: encode_eval)
  have l: "(4096::nat) \<le> 2 ^ 31" by simp
  show ?thesis using work_item_roundtrip [OF e l] e l by blast
qed

section \<open>Dynamic copy engine\<close>

lemma chunk_ids_length:
  assumes C: "chunk_size \<noteq> 0"
  shows "length (chunk_ids fsize chunk_size) =
           (if fsize = 0 then 1 else (unat fsize + unat chunk_size - 1) div unat chunk_size)"
proof -
  define S Cn q m where "S = unat fsize" and "Cn = unat chunk_size"
    and "q = S div Cn" and "m = S mod Cn"
  define n where "n = fsize div chunk_size"
  have Cpos: "0 < Cn" using C by (simp add: Cn_def unat_gt_0)
  have un: "unat n = q" by (simp add: n_def unat_div q_def S_def Cn_def)
  have Sqm: "S = q * Cn + m" by (simp add: q_def m_def)
  have S64: "S < 2 ^ 64" unfolding S_def using unsigned_less [of fsize, where 'a = nat] by simp
  have "unat n * unat chunk_size < 2 ^ LENGTH(64)" using Sqm S64 by (simp add: un Cn_def [symmetric])
  then have up: "unat (n * chunk_size) = q * Cn"
    using unat_mult_lem [of n chunk_size] by (simp add: un Cn_def)
  have lt: "n * chunk_size < fsize \<longleftrightarrow> m \<noteq> 0"
    unfolding word_less_nat_alt up S_def [symmetric] using Sqm by linarith
  have z: "n = 0 \<longleftrightarrow> q = 0" using un by (simp add: unat_eq_zero [symmetric])
  have len: "length (chunk_ids fsize chunk_size) = q + (if m \<noteq> 0 \<or> q = 0 then 1 else 0)"
    by (simp add: chunk_ids_def Let_def n_def [symmetric] lt z un)
  show ?thesis
  proof (cases "fsize = 0")
    case True
    then have "S = 0" by (simp add: S_def)
    then have "q = 0" "m = 0" by (simp_all add: q_def m_def)
    then show ?thesis using True len by simp
  next
    case False
    then have Spos: "0 < S" by (simp add: S_def unat_gt_0)
    have "(S + Cn - 1) div Cn = q + (if m \<noteq> 0 \<or> q = 0 then 1 else 0)"
    proof (cases "m = 0")
      case True
      then have qpos: "q \<noteq> 0" using Sqm Spos by auto
      have "(S + Cn - 1) div Cn = q"
      proof (rule div_nat_eqI)
        show "Cn * q \<le> S + Cn - 1" using Sqm True Cpos by (simp add: mult.commute)
        have e2: "Cn * Suc q = q * Cn + Cn" by (simp add: algebra_simps)
        show "S + Cn - 1 < Cn * Suc q" unfolding e2 using Sqm True Cpos by linarith
      qed
      then show ?thesis using True qpos by simp
    next
      case mf: False
      have "m < Cn" using Cpos by (simp add: m_def)
      have "(S + Cn - 1) div Cn = q + 1"
      proof (rule div_nat_eqI)
        have e: "Cn * (q + 1) = q * Cn + Cn" by (simp add: algebra_simps)
        show "Cn * (q + 1) \<le> S + Cn - 1" unfolding e using Sqm mf by linarith
        have e2: "Cn * Suc (q + 1) = q * Cn + Cn + Cn" by (simp add: algebra_simps)
        show "S + Cn - 1 < Cn * Suc (q + 1)" unfolding e2 using Sqm \<open>m < Cn\<close> by linarith
      qed
      then show ?thesis using mf by simp
    qed
    then show ?thesis using False len by (simp add: S_def Cn_def)
  qed
qed


lemma enqueue_chunks_length:
  "enqueue_chunks opsize name fsize doffset cs queue = Inr queue' \<Longrightarrow>
   length queue' = length queue + length cs"
proof (induction cs arbitrary: queue)
  case Nil
  then show ?case by simp
next
  case (Cons c cs)
  then show ?case by (auto split: sum.splits)
qed

lemma copy_loop_empty_src:
  "copy_loop wr_ok [] chunk_size io_bufsize in_offset out_offset (0, err, ar) = (0, err, ar)"
  by (subst copy_loop.simps) (simp add: Let_def)

text \<open>
  Whatever the positive chunk size and the I/O buffer size, the work item of a zero-byte
  file whose (empty) source is readable ends with the error flag set: the index of the last
  chunk is computed as \<open>0 - 1\<close>, which wraps, so the item is taken for a chunk in the middle
  of the file that delivered fewer than \<open>chunk_size\<close> bytes.\<close>

lemma perform_copy_zero_byte_file:
  assumes C: "chunk_size \<noteq> 0"
    and enc: "DTAR_encode_operation opsize COPY_DATA name 0 0 doffset = Inr opstr"
    and sz: "opsize \<le> 2 ^ 31"
    and src: "src_files env name = Some []"
  shows "\<exists>st'. DTAR_perform_copy env chunk_size io_bufsize opstr st = Inr st'
           \<and> DTAR_err st' \<and> archive st' = archive st \<and> reduce_bytes st' = reduce_bytes st"
proof -
  have d: "DTAR_decode_operation opstr =
      Inr \<lparr>file_size = 0, chunk_index = 0, offset = doffset, code = COPY_DATA, operand = name\<rparr>"
    by (rule decode_encode_operation [OF enc sz])
  have lt: "0 < chunk_size" using C by (simp add: word_gt_0)
  show ?thesis
    using C lt by (simp add: DTAR_perform_copy_def d src copy_loop_empty_src Let_def)
qed

text \<open>
  Claim C4.  A regular file of \<open>S\<close> bytes gets \<open>\<lceil>S/C\<rceil>\<close> work items, and one work item when
  \<open>S = 0\<close> (\<open>chunk_ids_length\<close>).  But processing the single work item of a zero-byte file
  does set the error flag: with a chunk size of 1 MiB, \<^verbatim>\<open>DTAR_enqueue_copy\<close> enqueues the one
  work item \<^verbatim>\<open>0:0:512:0:8:/d/empty\<close> for the empty file \<^verbatim>\<open>/d/empty\<close>, and
  \<^verbatim>\<open>DTAR_perform_copy\<close> on it, with every file operation succeeding, writes no byte and
  leaves \<^verbatim>\<open>DTAR_err\<close> set.\<close>

theorem zero_byte_work_item_sets_DTAR_err:
  "DTAR_enqueue_copy 4096 1048576
     [(\<lparr>item_name = ''/d/empty'', item_type = MFU_TYPE_FILE, item_size = 0, item_hdr = 512\<rparr>,
       0, 512)] []
     = Inr [''0:0:512:0:8:/d/empty'']
   \<and> DTAR_perform_copy
       \<lparr>src_files = [''/d/empty'' \<mapsto> []], archive_writable = True\<rparr>
       1048576 65536 ''0:0:512:0:8:/d/empty''
       \<lparr>DTAR_err = False, reduce_bytes = 0, archive = replicate 1536 0, archive_pos = 0\<rparr>
     = Inr \<lparr>DTAR_err = True, reduce_bytes = 0, archive = replicate 1536 0, archive_pos = 512\<rparr>"
proof
  show "DTAR_enqueue_copy 4096 1048576
     [(\<lparr>item_name = ''/d/empty'', item_type = MFU_TYPE_FILE, item_size = 0, item_hdr = 512\<rparr>,
       0, 512)] []
     = Inr [''0:0:512:0:8:/d/empty'']"
    by (simp add: chunk_ids_def encode_eval)
  show "DTAR_perform_copy
       \<lparr>src_files = [''/d/empty'' \<mapsto> []], archive_writable = True\<rparr>
       1048576 65536 ''0:0:512:0:8:/d/empty''
       \<lparr>DTAR_err = False, reduce_bytes = 0, archive = replicate 1536 0, archive_pos = 0\<rparr>
     = Inr \<lparr>DTAR_err = True, reduce_bytes = 0, archive = replicate 1536 0, archive_pos = 512\<rparr>"
    by (simp add: DTAR_perform_copy_def decode_eval copy_loop.simps lseek_ok_def Let_def)
qed

section \<open>Index file: writing and reading\<close>

lemma unat_of_nat_u64: "n < 2 ^ 64 \<Longrightarrow> unat (word_of_nat n :: u64) = n"
  by (intro of_nat_inverse) simp_all

lemma low_int_of_nat: "low_int (word_of_nat n) = word_of_nat n"
  by (simp add: low_int_def unsigned_of_nat word_of_nat_eq_iff min_def)

lemma sum_list_of_nat_u64: "sum_list (map (\<lambda>w. word_of_nat (f w) :: u64) ws) = word_of_nat (sum_list (map f ws))"
  by (induction ws) simp_all

lemma length_concat_sum: "length (concat ws) = sum_list (map length ws)"
  by (simp add: length_concat)

lemma scan_start:
  assumes "r < length ws"
  shows "MPI_Scan_sum (map (\<lambda>w. word_of_nat (length w)) ws) r
           - map (\<lambda>w. word_of_nat (length w)) ws ! r
         = word_of_nat (length (concat (take r ws)))"
proof -
  let ?c = "map (\<lambda>w. word_of_nat (length w) :: u64) ws"
  have "take (Suc r) ?c = take r ?c @ [?c ! r]"
    using assms by (simp add: take_Suc_conv_app_nth)
  then have "MPI_Scan_sum ?c r - ?c ! r = sum_list (take r ?c)"
    by (simp add: MPI_Scan_sum_def)
  also have "take r ?c = map (\<lambda>w. word_of_nat (length w)) (take r ws)" by (simp add: take_map)
  also have "sum_list \<dots> = word_of_nat (length (concat (take r ws)))"
    by (simp only: sum_list_of_nat_u64 length_concat_sum)
  finally show ?thesis .
qed


lemma gather_concat:
  assumes "p + length (concat ws) \<le> length buf" and "p + length (concat ws) < 2 ^ 31"
  shows "MPI_Gatherv buf
           (zip ws (zip (map (\<lambda>w. word_of_nat (length w)) ws)
                        (map (\<lambda>r. word_of_nat (p + length (concat (take r ws))))
                             [0 ..< length ws])))
         = Some (take p buf @ concat ws @ drop (p + length (concat ws)) buf)"
  using assms
proof (induction ws arbitrary: p buf)
  case Nil
  then show ?case by simp
next
  case (Cons w ws)
  define buf' where "buf' = take p buf @ w @ drop (p + length w) buf"
  have lw: "length w < 2 ^ 31" and lp: "p < 2 ^ 31" using Cons.prems by simp_all
  have sw: "sint (word_of_nat (length w) :: s32) = int (length w)"
    by (rule sint_of_nat_s32 [OF lw])
  have sp: "sint (word_of_nat p :: s32) = int p" by (rule sint_of_nat_s32 [OF lp])
  have fits: "p + length w \<le> length buf" using Cons.prems by simp
  have idx: "[0 ..< length (w # ws)] = 0 # map Suc [0 ..< length ws]"
    by (simp add: upt_conv_Cons map_Suc_upt del: upt_Suc)
  have len': "length buf' = length buf" using fits by (simp add: buf'_def)
  have ih: "MPI_Gatherv buf'
           (zip ws (zip (map (\<lambda>w. word_of_nat (length w)) ws)
                        (map (\<lambda>r. word_of_nat ((p + length w) + length (concat (take r ws))))
                             [0 ..< length ws])))
         = Some (take (p + length w) buf' @ concat ws
                   @ drop ((p + length w) + length (concat ws)) buf')"
    using Cons.prems by (intro Cons.IH) (simp_all add: len')
  have t: "take (p + length w) buf' = take p buf @ w" using fits by (simp add: buf'_def)
  have d: "drop ((p + length w) + length (concat ws)) buf'
             = drop (p + length (concat (w # ws))) buf"
    using fits by (simp add: buf'_def ac_simps)
  have step: "MPI_Gatherv buf
           (zip (w # ws) (zip (map (\<lambda>w. word_of_nat (length w)) (w # ws))
                        (map (\<lambda>r. word_of_nat (p + length (concat (take r (w # ws)))))
                             [0 ..< length (w # ws)])))
     = MPI_Gatherv buf'
           (zip ws (zip (map (\<lambda>w. word_of_nat (length w)) ws)
                        (map (\<lambda>r. word_of_nat ((p + length w) + length (concat (take r ws))))
                             [0 ..< length ws])))"
    unfolding idx using fits
    by (simp add: sw sp buf'_def o_def add.assoc)
  show ?case unfolding step ih t d by simp
qed

lemma unat_ucast_u8: "unat (ucast (w :: u64) :: u8) = unat w mod 256"
  by (simp add: unsigned_ucast_eq take_bit_eq_mod)

lemma unat_byte: "unat (ucast (drop_bit (8 * k) (v :: u64)) :: u8) = unat v div 256 ^ k mod 256"
proof -
  have "unat (drop_bit (8 * k) v) = unat v div 2 ^ (8 * k)"
    unfolding unat_drop_bit_eq by (rule drop_bit_eq_div)
  moreover have "(2::nat) ^ (8 * k) = 256 ^ k" by (simp add: power_mult)
  ultimately show ?thesis by (simp only: unat_ucast_u8)
qed

lemma rev_upt_8: "[7, 6, 5, 4, 3, 2, 1, 0] = rev [0 ..< (8::nat)]"
  by (simp add: upt_rec)

lemma horner_bytes:
  "foldl (\<lambda>acc b. 256 * acc + unat b) a
     (map (\<lambda>k. ucast (drop_bit (8 * k) (v :: u64)) :: u8) (rev [0 ..< n]))
   = a * 256 ^ n + unat v mod 256 ^ n"
proof (induction n arbitrary: a)
  case 0
  then show ?case by simp
next
  case (Suc n)
  define f where "f = (\<lambda>acc (b :: u8). 256 * acc + unat b)"
  define g where "g = (\<lambda>k. ucast (drop_bit (8 * k) v) :: u8)"
  have m: "unat v mod (256 ^ n * 256) = 256 ^ n * (unat v div 256 ^ n mod 256) + unat v mod 256 ^ n"
    by (rule mod_mult2_eq)
  have "foldl f a (map g (rev [0 ..< Suc n])) = foldl f (f a (g n)) (map g (rev [0 ..< n]))"
    by simp
  also have "\<dots> = f a (g n) * 256 ^ n + unat v mod 256 ^ n"
    using Suc [of "f a (g n)"] by (simp only: f_def g_def)
  also have "f a (g n) = 256 * a + unat v div 256 ^ n mod 256"
    by (simp only: f_def g_def unat_byte)
  also have "(256 * a + unat v div 256 ^ n mod 256) * 256 ^ n + unat v mod 256 ^ n
      = a * 256 ^ Suc n + unat v mod 256 ^ Suc n"
    using m by (simp add: algebra_simps)
  finally show ?case by (simp only: f_def g_def)
qed

lemma unpack_pack: "mfu_unpack_uint64 (mfu_pack_uint64 v) = v"
proof -
  have "unat v < 256 ^ 8" using unsigned_less [of v, where 'a = nat] by simp
  then have "unat v mod 256 ^ 8 = unat v" by (rule mod_less)
  then have "foldl (\<lambda>acc b. 256 * acc + unat b) 0 (mfu_pack_uint64 v) = unat v"
    unfolding mfu_pack_uint64_def rev_upt_8 horner_bytes by simp
  moreover have "take 8 (mfu_pack_uint64 v) = mfu_pack_uint64 v"
    by (simp add: mfu_pack_uint64_def)
  ultimately show ?thesis by (simp add: mfu_unpack_uint64_def)
qed

lemma length_pack: "length (mfu_pack_uint64 v) = 8"
  by (simp add: mfu_pack_uint64_def)


lemma length_concat_pack: "length (concat (map mfu_pack_uint64 xs)) = 8 * length xs"
  by (induction xs) (simp_all add: length_pack)

lemma drop_concat_pack:
  "drop (8 * i) (concat (map mfu_pack_uint64 xs)) = concat (map mfu_pack_uint64 (drop i xs))"
proof (induction xs arbitrary: i)
  case Nil
  then show ?case by simp
next
  case (Cons x xs)
  show ?case
  proof (cases i)
    case 0
    then show ?thesis by simp
  next
    case (Suc j)
    have "8 * i - 8 = 8 * j" using Suc by simp
    then show ?thesis using Suc Cons.IH [of j] by (simp add: length_pack)
  qed
qed

lemma unpack_nth:
  assumes "i < length xs"
  shows "mfu_unpack_uint64 (drop (8 * i) (concat (map mfu_pack_uint64 xs))) = xs ! i"
proof -
  have "drop i xs = xs ! i # drop (Suc i) xs" using assms by (simp add: Cons_nth_drop_Suc)
  then have "drop (8 * i) (concat (map mfu_pack_uint64 xs))
      = mfu_pack_uint64 (xs ! i) @ concat (map mfu_pack_uint64 (drop (Suc i) xs))"
    by (simp add: drop_concat_pack)
  moreover have "mfu_unpack_uint64 (mfu_pack_uint64 (xs ! i) @ rest) = xs ! i" for rest
    using unpack_pack [of "xs ! i"] by (simp add: mfu_unpack_uint64_def length_pack)
  ultimately show ?thesis by simp
qed

lemma unpack_all:
  "map (\<lambda>i. mfu_unpack_uint64 (drop (8 * i) (concat (map mfu_pack_uint64 xs)))) [0 ..< length xs]
     = xs"
  by (rule nth_equalityI) (simp_all add: unpack_nth)

lemma unat_times_8:
  assumes "n < 2 ^ 31"
  shows "unat (word_of_nat n * 8 :: u64) = 8 * n"
proof -
  have "unat (word_of_nat n :: u64) = n" using assms by (intro unat_of_nat_u64) simp
  moreover have "n * 8 < 2 ^ 64" using assms by simp
  ultimately have "unat (word_of_nat n :: u64) * unat (8 :: u64) < 2 ^ LENGTH(64)" by simp
  then have "unat (word_of_nat n * 8 :: u64) = unat (word_of_nat n :: u64) * unat (8 :: u64)"
    using unat_mult_lem [of "word_of_nat n :: u64" 8] by blast
  then show ?thesis using \<open>unat (word_of_nat n :: u64) = n\<close> by simp
qed

lemma fs_file_update_data: "f\<lparr>f_data := d\<rparr> = \<lparr>f_mode = f_mode f, f_data = d\<rparr>"
  by (cases f) simp

lemma index_file_write_ok:
  assumes n: "length xs < 2 ^ 31" and ok: "\<not> fs_denied fs name" "\<not> fs_full fs"
  shows "index_file_write fs name (word_of_nat (length xs)) xs =
           Some (True, fs\<lparr>fs_files := (fs_files fs)
                   (name \<mapsto> \<lparr>f_mode = (case fs_files fs name of None \<Rightarrow> 432
                                         | Some f \<Rightarrow> f_mode f),
                              f_data = concat (map mfu_pack_uint64 xs)\<rparr>)\<rparr>)"
proof -
  have u: "unat (word_of_nat (length xs) :: u64) = length xs"
    using n by (intro unat_of_nat_u64) simp
  have b: "unat (word_of_nat (length xs) * 8 :: u64) = 8 * length xs"
    by (rule unat_times_8 [OF n])
  show ?thesis
    using ok
    by (cases "fs_files fs name")
       (simp_all add: index_file_write_def mfu_open_create_trunc_def mfu_write_def Let_def
          u b length_concat_pack fs_file_update_data)
qed

lemma write_entry_index_gathers:
  assumes small: "length (concat world) < 2 ^ 31"
  shows "write_entry_index fs file world mfu_rank =
           (case index_file_write fs (file @ ''.idx'') (word_of_nat (length (concat world)))
                   (concat world) of
              None \<Rightarrow> None
            | Some (success, fs') \<Rightarrow>
                Some (if success then MFU_SUCCESS else MFU_FAILURE,
                      if mfu_rank = 0 then fs' else fs))"
proof -
  let ?counts = "map (\<lambda>offsets. word_of_nat (length offsets) :: u64) world"
  have tot: "MPI_Allreduce_sum ?counts = word_of_nat (length (concat world))"
    by (simp only: MPI_Allreduce_sum_def sum_list_of_nat_u64 length_concat_sum)
  have ut: "unat (word_of_nat (length (concat world)) :: u64) = length (concat world)"
    using small by (intro unat_of_nat_u64) simp
  have cnts: "map low_int ?counts = map (\<lambda>w. word_of_nat (length w)) world"
    by (simp add: low_int_of_nat)
  have disps: "map low_int (map (\<lambda>r. MPI_Scan_sum ?counts r - ?counts ! r) [0 ..< length world])
      = map (\<lambda>r. word_of_nat (0 + length (concat (take r world)))) [0 ..< length world]"
    unfolding map_map o_def
  proof (rule map_cong [OF refl])
    fix r assume "r \<in> set [0 ..< length world]"
    then have "r < length world" by simp
    then show "low_int (MPI_Scan_sum ?counts r - ?counts ! r)
        = word_of_nat (0 + length (concat (take r world)))"
      by (simp only: scan_start low_int_of_nat add_0)
  qed
  have g: "MPI_Gatherv (replicate (length (concat world)) 0)
       (zip world (zip (map (\<lambda>w. word_of_nat (length w)) world)
            (map (\<lambda>r. word_of_nat (0 + length (concat (take r world)))) [0 ..< length world])))
     = Some (concat world)"
    using gather_concat [of 0 world "replicate (length (concat world)) 0"] small by simp
  show ?thesis
    unfolding write_entry_index_def Let_def tot ut cnts disps g by simp
qed

lemma read_entry_index_packed:
  assumes f: "fs_files fs (file @ ''.idx'') = Some f"
    and d: "f_data f = concat (map mfu_pack_uint64 xs)"
    and n: "length xs < 2 ^ 31" and ok: "\<not> fs_denied fs (file @ ''.idx'')"
  shows "read_entry_index fs file = (MFU_SUCCESS, word_of_nat (length xs), xs)"
proof -
  have l: "length (f_data f) = 8 * length xs" by (simp add: d length_concat_pack)
  have "8 * length xs < 2 ^ 64" using n by simp
  then have u8: "unat (word_of_nat (8 * length xs) :: u64) = 8 * length xs"
    by (rule unat_of_nat_u64)
  have u: "unat (word_of_nat (length xs) :: u64) = length xs"
    using n by (intro unat_of_nat_u64) simp
  have "unat ((word_of_nat (8 * length xs) :: u64) div 8)
          = unat (word_of_nat (8 * length xs) :: u64) div unat (8 :: u64)"
    by (rule unat_div)
  also have "\<dots> = 8 * length xs div 8" by (simp only: u8) simp
  finally have "unat ((word_of_nat (8 * length xs) :: u64) div 8)
          = unat (word_of_nat (length xs) :: u64)"
    by (simp add: u)
  then have c0: "(word_of_nat (8 * length xs) :: u64) div 8 = word_of_nat (length xs)"
    by (rule word_unat_eq_iff [THEN iffD2])
  then have c: "(8 * word_of_nat (length xs) :: u64) div 8 = word_of_nat (length xs)"
    by simp
  have b: "unat (word_of_nat (length xs) * 8 :: u64) = 8 * length xs"
    by (rule unat_times_8 [OF n])
  show ?thesis
    using ok by (simp add: read_entry_index_def Let_def f l c b u d length_concat_pack unpack_all)
qed

text \<open>
  Claim C7.  With fewer than \<open>2\<^sup>3\<^sup>1\<close> entries in all (counts and displacements of the
  gather are C \<^verbatim>\<open>int\<close>s) and the index file writable, \<^verbatim>\<open>write_entry_index\<close> succeeds, and
  the file \<^verbatim>\<open><archive>.idx\<close> then holds exactly the big-endian encodings of the offsets of all
  ranks in rank order, eight bytes for each entry; the \<open>i\<close>-th group of eight bytes encodes
  the \<open>i\<close>-th offset; the file gets mode 0660 (432) when it is created; and only rank 0
  changes the file system.\<close>

theorem index_file_contents:
  assumes small: "length (concat world) < 2 ^ 31"
    and ok: "\<not> fs_denied fs (file @ ''.idx'')" "\<not> fs_full fs"
  shows "\<exists>f. write_entry_index fs file world 0
               = Some (MFU_SUCCESS, fs\<lparr>fs_files := (fs_files fs)(file @ ''.idx'' \<mapsto> f)\<rparr>)
           \<and> f_data f = concat (map mfu_pack_uint64 (concat world))
           \<and> length (f_data f) = 8 * length (concat world)
           \<and> (\<forall>i < length (concat world).
                 take 8 (drop (8 * i) (f_data f)) = mfu_pack_uint64 (concat world ! i))
           \<and> (fs_files fs (file @ ''.idx'') = None \<longrightarrow> f_mode f = 432)
           \<and> (\<forall>r. r \<noteq> 0 \<longrightarrow> write_entry_index fs file world r = Some (MFU_SUCCESS, fs))"
proof -
  define f where "f = \<lparr>f_mode = (case fs_files fs (file @ ''.idx'') of None \<Rightarrow> 432
                                  | Some g \<Rightarrow> f_mode g),
                       f_data = concat (map mfu_pack_uint64 (concat world))\<rparr>"
  have w: "index_file_write fs (file @ ''.idx'') (word_of_nat (length (concat world)))
             (concat world)
           = Some (True, fs\<lparr>fs_files := (fs_files fs)(file @ ''.idx'' \<mapsto> f)\<rparr>)"
    unfolding f_def by (rule index_file_write_ok [OF small ok])
  have r0: "write_entry_index fs file world 0
               = Some (MFU_SUCCESS, fs\<lparr>fs_files := (fs_files fs)(file @ ''.idx'' \<mapsto> f)\<rparr>)"
    by (simp add: write_entry_index_gathers [OF small] w)
  have rn: "\<forall>r. r \<noteq> 0 \<longrightarrow> write_entry_index fs file world r = Some (MFU_SUCCESS, fs)"
    by (simp add: write_entry_index_gathers [OF small] w)
  have d: "f_data f = concat (map mfu_pack_uint64 (concat world))" by (simp add: f_def)
  have l: "length (f_data f) = 8 * length (concat world)"
    by (simp add: d length_concat_pack)
  have nth: "\<forall>i < length (concat world).
                 take 8 (drop (8 * i) (f_data f)) = mfu_pack_uint64 (concat world ! i)"
  proof (intro allI impI)
    fix i assume i: "i < length (concat world)"
    have "drop i (concat world) = concat world ! i # drop (Suc i) (concat world)"
      using i by (simp add: Cons_nth_drop_Suc)
    then show "take 8 (drop (8 * i) (f_data f)) = mfu_pack_uint64 (concat world ! i)"
      by (simp add: d drop_concat_pack length_pack)
  qed
  have m: "fs_files fs (file @ ''.idx'') = None \<longrightarrow> f_mode f = 432" by (simp add: f_def)
  from r0 d l nth m rn show ?thesis by (intro exI [of _ f] conjI) assumption+
qed


theorem index_file_contents_witness:
  "length (concat [[0, 1024], [2048 :: u64]]) < 2 ^ 31
   \<and> \<not> fs_denied \<lparr>fs_files = Map.empty, fs_denied = (\<lambda>p. False), fs_full = False\<rparr>
         (''a.tar'' @ ''.idx'')
   \<and> \<not> fs_full \<lparr>fs_files = Map.empty, fs_denied = (\<lambda>p. False), fs_full = False\<rparr>
   \<and> (\<exists>f. write_entry_index \<lparr>fs_files = Map.empty, fs_denied = (\<lambda>p. False), fs_full = False\<rparr>
              ''a.tar'' [[0, 1024], [2048]] 0
            = Some (MFU_SUCCESS,
                \<lparr>fs_files = Map.empty, fs_denied = (\<lambda>p. False), fs_full = False\<rparr>
                  \<lparr>fs_files := (Map.empty :: string \<rightharpoonup> fs_file)(''a.tar'' @ ''.idx'' \<mapsto> f)\<rparr>)
          \<and> length (f_data f) = 24
          \<and> take 8 (drop 8 (f_data f)) = mfu_pack_uint64 1024
          \<and> f_mode f = 432)"
proof -
  define fs where "fs = \<lparr>fs_files = Map.empty, fs_denied = (\<lambda>p. False), fs_full = False\<rparr>"
  define W :: "u64 list list" where "W = [[0, 1024], [2048]]"
  have h1: "length (concat W) < 2 ^ 31" by (simp add: W_def)
  have h2: "\<not> fs_denied fs (''a.tar'' @ ''.idx'')" by (simp add: fs_def)
  have h3: "\<not> fs_full fs" by (simp add: fs_def)
  from index_file_contents [OF h1 h2 h3] obtain f where all:
      "write_entry_index fs ''a.tar'' W 0
               = Some (MFU_SUCCESS, fs\<lparr>fs_files := (fs_files fs)(''a.tar'' @ ''.idx'' \<mapsto> f)\<rparr>)
       \<and> f_data f = concat (map mfu_pack_uint64 (concat W))
       \<and> length (f_data f) = 8 * length (concat W)
       \<and> (\<forall>i < length (concat W).
             take 8 (drop (8 * i) (f_data f)) = mfu_pack_uint64 (concat W ! i))
       \<and> (fs_files fs (''a.tar'' @ ''.idx'') = None \<longrightarrow> f_mode f = 432)
       \<and> (\<forall>r. r \<noteq> 0 \<longrightarrow> write_entry_index fs ''a.tar'' W r = Some (MFU_SUCCESS, fs))" ..
  note f = all [THEN conjunct1] all [THEN conjunct2, THEN conjunct2, THEN conjunct1]
    all [THEN conjunct2, THEN conjunct2, THEN conjunct2, THEN conjunct1]
    all [THEN conjunct2, THEN conjunct2, THEN conjunct2, THEN conjunct2, THEN conjunct1]
  have a: "length (f_data f) = 24" using f(2) by (simp add: W_def)
  have "1 < length (concat W)" by (simp add: W_def)
  with f(3) [rule_format, of 1]
  have "take 8 (drop (8 * 1) (f_data f)) = mfu_pack_uint64 (concat W ! 1)" .
  then have b: "take 8 (drop 8 (f_data f)) = mfu_pack_uint64 1024" by (simp add: W_def)
  have c: "f_mode f = 432" using f(4) by (simp add: fs_def)
  have w: "write_entry_index fs ''a.tar'' W 0
               = Some (MFU_SUCCESS, fs\<lparr>fs_files := (Map.empty :: string \<rightharpoonup> fs_file)
                                                  (''a.tar'' @ ''.idx'' \<mapsto> f)\<rparr>)"
    using f(1) by (simp add: fs_def)
  show ?thesis using h1 h2 h3 w a b c unfolding fs_def W_def by blast
qed

text \<open>
  Claim C8.  Under the same conditions, reading the index back with \<^verbatim>\<open>read_entry_index\<close>
  from the file system \<^verbatim>\<open>write_entry_index\<close> leaves behind succeeds and returns the number of
  entries and the array of offsets that were written.\<close>

theorem index_roundtrip:
  assumes small: "length (concat world) < 2 ^ 31"
    and ok: "\<not> fs_denied fs (file @ ''.idx'')" "\<not> fs_full fs"
  shows "\<exists>fs'. write_entry_index fs file world 0 = Some (MFU_SUCCESS, fs')
           \<and> read_entry_index fs' file
               = (MFU_SUCCESS, word_of_nat (length (concat world)), concat world)"
proof -
  define f where "f = \<lparr>f_mode = (case fs_files fs (file @ ''.idx'') of None \<Rightarrow> 432
                                  | Some g \<Rightarrow> f_mode g),
                       f_data = concat (map mfu_pack_uint64 (concat world))\<rparr>"
  define fs' where "fs' = fs\<lparr>fs_files := (fs_files fs)(file @ ''.idx'' \<mapsto> f)\<rparr>"
  have w: "index_file_write fs (file @ ''.idx'') (word_of_nat (length (concat world)))
             (concat world) = Some (True, fs')"
    unfolding f_def fs'_def by (rule index_file_write_ok [OF small ok])
  have r0: "write_entry_index fs file world 0 = Some (MFU_SUCCESS, fs')"
    by (simp add: write_entry_index_gathers [OF small] w)
  have "read_entry_index fs' file
               = (MFU_SUCCESS, word_of_nat (length (concat world)), concat world)"
  proof (rule read_entry_index_packed [OF _ _ small])
    show "fs_files fs' (file @ ''.idx'') = Some f" by (simp add: fs'_def)
    show "f_data f = concat (map mfu_pack_uint64 (concat world))" by (simp add: f_def)
    show "\<not> fs_denied fs' (file @ ''.idx'')" using ok by (simp add: fs'_def)
  qed
  with r0 show ?thesis by (intro exI [of _ fs'] conjI) assumption+
qed


theorem index_roundtrip_witness:
  "length (concat [[0, 1024], [2048 :: u64]]) < 2 ^ 31
   \<and> \<not> fs_denied \<lparr>fs_files = Map.empty, fs_denied = (\<lambda>p. False), fs_full = False\<rparr>
         (''a.tar'' @ ''.idx'')
   \<and> \<not> fs_full \<lparr>fs_files = Map.empty, fs_denied = (\<lambda>p. False), fs_full = False\<rparr>
   \<and> (\<exists>fs'. write_entry_index \<lparr>fs_files = Map.empty, fs_denied = (\<lambda>p. False), fs_full = False\<rparr>
              ''a.tar'' [[0, 1024], [2048]] 0 = Some (MFU_SUCCESS, fs')
          \<and> read_entry_index fs' ''a.tar'' = (MFU_SUCCESS, 3, [0, 1024, 2048]))"
proof -
  define fs where "fs = \<lparr>fs_files = Map.empty, fs_denied = (\<lambda>p. False), fs_full = False\<rparr>"
  define W :: "u64 list list" where "W = [[0, 1024], [2048]]"
  have h1: "length (concat W) < 2 ^ 31" by (simp add: W_def)
  have h2: "\<not> fs_denied fs (''a.tar'' @ ''.idx'')" by (simp add: fs_def)
  have h3: "\<not> fs_full fs" by (simp add: fs_def)
  from index_roundtrip [OF h1 h2 h3] obtain fs' where all:
      "write_entry_index fs ''a.tar'' W 0 = Some (MFU_SUCCESS, fs')
       \<and> read_entry_index fs' ''a.tar''
           = (MFU_SUCCESS, word_of_nat (length (concat W)), concat W)" ..
  note f = all [THEN conjunct1] all [THEN conjunct2]
  have "read_entry_index fs' ''a.tar'' = (MFU_SUCCESS, 3, [0, 1024, 2048])"
    using f(2) by (simp add: W_def)
  then show ?thesis using h1 h2 h3 f(1) unfolding fs_def W_def by blast
qed

section \<open>Extraction: the index, the scan, and header errors\<close>

lemma read_entry_index_missing:
  "fs_files fs (filename @ ''.idx'') = None \<Longrightarrow>
   read_entry_index fs filename = (MFU_FAILURE, 0, [])"
  by (simp add: read_entry_index_def Let_def)


lemma index_loop_scan:
  "index_loop (map (\<lambda>(pos, e). ARCHIVE_OK pos e) es @ ARCHIVE_EOF # rest) offsets
     = (MFU_SUCCESS, offsets @ map fst es)"
proof (induction es arbitrary: offsets)
  case Nil
  then show ?case by simp
next
  case (Cons a es)
  then show ?case by (cases a) simp
qed

lemma index_entries_scan:
  "index_entries True (map (\<lambda>(pos, e). ARCHIVE_OK pos e) es @ ARCHIVE_EOF # rest)
     = (MFU_SUCCESS, word_of_nat (length es), map fst es)"
  by (simp add: index_entries_def index_loop_scan)

lemma entry_partition_zero: "entry_partition 0 ranks mfu_rank = (0, 0)"
  by (simp add: entry_partition_def Let_def)


text \<open>
  Claim C9.  When \<^verbatim>\<open><archive>.idx\<close> does not exist, \<^verbatim>\<open>read_entry_index\<close> returns
  \<^verbatim>\<open>MFU_FAILURE\<close> (it returns; the process goes on), and \<^verbatim>\<open>mfu_flist_archive_extract\<close> calls
  \<^verbatim>\<open>index_entries\<close> next.  On an archive that can be opened and whose headers are read one
  after the other up to the end of the archive, the scan returns \<^verbatim>\<open>MFU_SUCCESS\<close> with the
  number of entries and the header position of every entry, in order, and these are the
  count and the offsets \<^verbatim>\<open>extract_flist_offsets\<close> is called with.  Whatever count and offsets
  the scan returns with \<^verbatim>\<open>MFU_SUCCESS\<close>, the extraction hands them to the phases that follow,
  saves this rank's part of them with \<^verbatim>\<open>write_entry_index\<close>, and returns \<^verbatim>\<open>MFU_SUCCESS\<close> when
  those phases succeed.  When the scan fails but \<^verbatim>\<open>extract_flist\<close> and \<^verbatim>\<open>extract_files\<close>
  succeed, the extraction returns \<^verbatim>\<open>MFU_SUCCESS\<close> as well: the missing index does not make
  it fail.\<close>

theorem missing_index_falls_back_to_scan:
  assumes missing: "fs_files (x_fs env) (filename @ ''.idx'') = None"
  shows "read_entry_index (x_fs env) filename = (MFU_FAILURE, 0, [])
    \<and> take 2 (fst (mfu_flist_archive_extract env filename la ranks mfu_rank))
          = [Call_read_entry_index, Call_index_entries]
    \<and> (x_opened env
        \<and> x_headers env = map (\<lambda>(pos, e). ARCHIVE_OK pos e) es @ ARCHIVE_EOF # rest
        \<longrightarrow> index_entries (x_opened env) (x_headers env)
              = (MFU_SUCCESS, word_of_nat (length es), map fst es)
          \<and> take 3 (fst (mfu_flist_archive_extract env filename la ranks mfu_rank))
              = [Call_read_entry_index, Call_index_entries,
                 Call_extract_flist_offsets (word_of_nat (length es))
                   (fst (entry_partition (word_of_nat (length es)) (int ranks) (int mfu_rank)))
                   (snd (entry_partition (word_of_nat (length es)) (int ranks) (int mfu_rank)))
                   (map fst es)])
    \<and> (index_entries (x_opened env) (x_headers env) = (MFU_SUCCESS, n, offs)
        \<and> entry_partition n (int ranks) (int mfu_rank) = (s, c)
        \<and> x_extract_flist_offsets env n s c offs = MFU_SUCCESS
        \<and> (if la then x_extract_files_offsets env n s c offs = MFU_SUCCESS
            else x_extract_files_offsets_chunk env n s c = MFU_SUCCESS
                 \<and> x_extract_symlinks env offs = MFU_SUCCESS)
        \<longrightarrow> mfu_flist_archive_extract env filename la ranks mfu_rank
              = ([Call_read_entry_index, Call_index_entries, Call_extract_flist_offsets n s c offs]
                   @ (if la then [Call_extract_files_offsets n s c offs]
                      else [Call_extract_files_offsets_chunk n s c, Call_extract_symlinks offs])
                   @ [Call_write_entry_index c (take (unat c) (drop (unat s) offs))],
                 Returns MFU_SUCCESS))
    \<and> (fst (index_entries (x_opened env) (x_headers env)) = MFU_FAILURE
        \<and> (\<exists>flist. extract_flist (x_open_r env) (x_headers env) ranks mfu_rank (x_others env)
                       = Returns (MFU_SUCCESS, flist))
        \<and> x_extract_files env 0 0 0 = MFU_SUCCESS
        \<longrightarrow> mfu_flist_archive_extract env filename la ranks mfu_rank
              = ([Call_read_entry_index, Call_index_entries, Call_extract_flist,
                  Call_extract_files 0 0 0], Returns MFU_SUCCESS))"
proof (intro conjI impI)
  show r: "read_entry_index (x_fs env) filename = (MFU_FAILURE, 0, [])"
    by (rule read_entry_index_missing [OF missing])
  show "take 2 (fst (mfu_flist_archive_extract env filename la ranks mfu_rank))
          = [Call_read_entry_index, Call_index_entries]"
    by (simp add: mfu_flist_archive_extract_def r Let_def split: prod.splits outcome.splits)
next
  assume a: "x_opened env
        \<and> x_headers env = map (\<lambda>(pos, e). ARCHIVE_OK pos e) es @ ARCHIVE_EOF # rest"
  have r: "read_entry_index (x_fs env) filename = (MFU_FAILURE, 0, [])"
    by (rule read_entry_index_missing [OF missing])
  show ie: "index_entries (x_opened env) (x_headers env)
              = (MFU_SUCCESS, word_of_nat (length es), map fst es)"
    using a by (simp add: index_entries_scan)
  show "take 3 (fst (mfu_flist_archive_extract env filename la ranks mfu_rank))
              = [Call_read_entry_index, Call_index_entries,
                 Call_extract_flist_offsets (word_of_nat (length es))
                   (fst (entry_partition (word_of_nat (length es)) (int ranks) (int mfu_rank)))
                   (snd (entry_partition (word_of_nat (length es)) (int ranks) (int mfu_rank)))
                   (map fst es)]"
    by (simp add: mfu_flist_archive_extract_def r ie Let_def split: prod.splits outcome.splits)
next
  assume a: "index_entries (x_opened env) (x_headers env) = (MFU_SUCCESS, n, offs)
        \<and> entry_partition n (int ranks) (int mfu_rank) = (s, c)
        \<and> x_extract_flist_offsets env n s c offs = MFU_SUCCESS
        \<and> (if la then x_extract_files_offsets env n s c offs = MFU_SUCCESS
            else x_extract_files_offsets_chunk env n s c = MFU_SUCCESS
                 \<and> x_extract_symlinks env offs = MFU_SUCCESS)"
  have r: "read_entry_index (x_fs env) filename = (MFU_FAILURE, 0, [])"
    by (rule read_entry_index_missing [OF missing])
  have ie: "index_entries (x_opened env) (x_headers env) = (MFU_SUCCESS, n, offs)"
    using a by blast
  have ep: "entry_partition n (int ranks) (int mfu_rank) = (s, c)" using a by blast
  have f: "x_extract_flist_offsets env n s c offs = MFU_SUCCESS" using a by blast
  show "mfu_flist_archive_extract env filename la ranks mfu_rank
              = ([Call_read_entry_index, Call_index_entries, Call_extract_flist_offsets n s c offs]
                   @ (if la then [Call_extract_files_offsets n s c offs]
                      else [Call_extract_files_offsets_chunk n s c, Call_extract_symlinks offs])
                   @ [Call_write_entry_index c (take (unat c) (drop (unat s) offs))],
                 Returns MFU_SUCCESS)"
  proof (cases la)
    case True
    then have "x_extract_files_offsets env n s c offs = MFU_SUCCESS" using a by simp
    then show ?thesis
      using True by (simp add: mfu_flist_archive_extract_def r ie ep f Let_def)
  next
    case False
    then have "x_extract_files_offsets_chunk env n s c = MFU_SUCCESS"
      and "x_extract_symlinks env offs = MFU_SUCCESS" using a by simp_all
    then show ?thesis
      using False by (simp add: mfu_flist_archive_extract_def r ie ep f Let_def)
  qed
next
  assume a: "fst (index_entries (x_opened env) (x_headers env)) = MFU_FAILURE
        \<and> (\<exists>flist. extract_flist (x_open_r env) (x_headers env) ranks mfu_rank (x_others env)
                       = Returns (MFU_SUCCESS, flist))
        \<and> x_extract_files env 0 0 0 = MFU_SUCCESS"
  have r: "read_entry_index (x_fs env) filename = (MFU_FAILURE, 0, [])"
    by (rule read_entry_index_missing [OF missing])
  have "index_entries (x_opened env) (x_headers env) = (MFU_FAILURE, 0, [])"
    using a by (auto simp add: index_entries_def split: if_splits prod.splits mfu_rc.splits)
  then have ie: "index_entries (x_opened env) (x_headers env) = (MFU_FAILURE, 0, [])" .
  obtain flist where ef: "extract_flist (x_open_r env) (x_headers env) ranks mfu_rank (x_others env)
                       = Returns (MFU_SUCCESS, flist)" using a by blast
  have xf: "x_extract_files env 0 0 0 = MFU_SUCCESS" using a by blast
  show "mfu_flist_archive_extract env filename la ranks mfu_rank
              = ([Call_read_entry_index, Call_index_entries, Call_extract_flist,
                  Call_extract_files 0 0 0], Returns MFU_SUCCESS)"
    by (simp add: mfu_flist_archive_extract_def r ie ef xf entry_partition_zero Let_def)
qed


theorem missing_index_falls_back_to_scan_witness:
  "fs_files (x_fs
      \<lparr>x_fs = \<lparr>fs_files = Map.empty, fs_denied = (\<lambda>p. False), fs_full = False\<rparr>,
       x_opened = True, x_open_r = 0,
       x_headers = [ARCHIVE_OK 0 ''a'', ARCHIVE_OK 512 ''b'', ARCHIVE_EOF], x_others = True,
       x_extract_flist_offsets =
         (\<lambda>n s c offs. if offs = [0, 512] then MFU_SUCCESS else MFU_FAILURE),
       x_extract_files_offsets = (\<lambda>n s c offs. MFU_SUCCESS),
       x_extract_files_offsets_chunk = (\<lambda>n s c. MFU_SUCCESS),
       x_extract_symlinks = (\<lambda>offs. if offs = [0, 512] then MFU_SUCCESS else MFU_FAILURE),
       x_extract_files = (\<lambda>n s c. MFU_SUCCESS)\<rparr>) (''a.tar'' @ ''.idx'') = None
   \<and> index_entries True [ARCHIVE_OK 0 ''a'', ARCHIVE_OK 512 ''b'', ARCHIVE_EOF]
       = (MFU_SUCCESS, 2, [0, 512])
   \<and> mfu_flist_archive_extract
      \<lparr>x_fs = \<lparr>fs_files = Map.empty, fs_denied = (\<lambda>p. False), fs_full = False\<rparr>,
       x_opened = True, x_open_r = 0,
       x_headers = [ARCHIVE_OK 0 ''a'', ARCHIVE_OK 512 ''b'', ARCHIVE_EOF], x_others = True,
       x_extract_flist_offsets =
         (\<lambda>n s c offs. if offs = [0, 512] then MFU_SUCCESS else MFU_FAILURE),
       x_extract_files_offsets = (\<lambda>n s c offs. MFU_SUCCESS),
       x_extract_files_offsets_chunk = (\<lambda>n s c. MFU_SUCCESS),
       x_extract_symlinks = (\<lambda>offs. if offs = [0, 512] then MFU_SUCCESS else MFU_FAILURE),
       x_extract_files = (\<lambda>n s c. MFU_SUCCESS)\<rparr> ''a.tar'' False 2 1
     = ([Call_read_entry_index, Call_index_entries,
         Call_extract_flist_offsets 2 1 1 [0, 512], Call_extract_files_offsets_chunk 2 1 1,
         Call_extract_symlinks [0, 512], Call_write_entry_index 1 [512]],
        Returns MFU_SUCCESS)
   \<and> mfu_flist_archive_extract
      \<lparr>x_fs = \<lparr>fs_files = Map.empty, fs_denied = (\<lambda>p. False), fs_full = False\<rparr>,
       x_opened = False, x_open_r = 0,
       x_headers = [ARCHIVE_OK 0 ''a'', ARCHIVE_OK 512 ''b'', ARCHIVE_EOF], x_others = True,
       x_extract_flist_offsets = (\<lambda>n s c offs. MFU_SUCCESS),
       x_extract_files_offsets = (\<lambda>n s c offs. MFU_SUCCESS),
       x_extract_files_offsets_chunk = (\<lambda>n s c. MFU_SUCCESS),
       x_extract_symlinks = (\<lambda>offs. MFU_SUCCESS),
       x_extract_files = (\<lambda>n s c. MFU_SUCCESS)\<rparr> ''a.tar'' False 2 0
     = ([Call_read_entry_index, Call_index_entries, Call_extract_flist,
         Call_extract_files 0 0 0], Returns MFU_SUCCESS)"
proof -
  define A :: "string extract_env" where "A =
      \<lparr>x_fs = \<lparr>fs_files = Map.empty, fs_denied = (\<lambda>p. False), fs_full = False\<rparr>,
       x_opened = True, x_open_r = 0,
       x_headers = [ARCHIVE_OK 0 ''a'', ARCHIVE_OK 512 ''b'', ARCHIVE_EOF], x_others = True,
       x_extract_flist_offsets =
         (\<lambda>n s c offs. if offs = [0, 512] then MFU_SUCCESS else MFU_FAILURE),
       x_extract_files_offsets = (\<lambda>n s c offs. MFU_SUCCESS),
       x_extract_files_offsets_chunk = (\<lambda>n s c. MFU_SUCCESS),
       x_extract_symlinks = (\<lambda>offs. if offs = [0, 512] then MFU_SUCCESS else MFU_FAILURE),
       x_extract_files = (\<lambda>n s c. MFU_SUCCESS)\<rparr>"
  define B :: "string extract_env" where "B =
      \<lparr>x_fs = \<lparr>fs_files = Map.empty, fs_denied = (\<lambda>p. False), fs_full = False\<rparr>,
       x_opened = False, x_open_r = 0,
       x_headers = [ARCHIVE_OK 0 ''a'', ARCHIVE_OK 512 ''b'', ARCHIVE_EOF], x_others = True,
       x_extract_flist_offsets = (\<lambda>n s c offs. MFU_SUCCESS),
       x_extract_files_offsets = (\<lambda>n s c offs. MFU_SUCCESS),
       x_extract_files_offsets_chunk = (\<lambda>n s c. MFU_SUCCESS),
       x_extract_symlinks = (\<lambda>offs. MFU_SUCCESS),
       x_extract_files = (\<lambda>n s c. MFU_SUCCESS)\<rparr>"
  have mA: "fs_files (x_fs A) (''a.tar'' @ ''.idx'') = None" by (simp add: A_def)
  have mB: "fs_files (x_fs B) (''a.tar'' @ ''.idx'') = None" by (simp add: B_def)
  note tA = missing_index_falls_back_to_scan [where env = A and la = False and ranks = 2
      and mfu_rank = 1 and es = "[(0, ''a''), (512, ''b'')]" and rest = "[]" and n = 2
      and offs = "[0, 512]" and s = 1 and c = 1, OF mA]
  note tB = missing_index_falls_back_to_scan [where env = B and la = False and ranks = 2
      and mfu_rank = 0, OF mB]
  have hA1: "x_opened A
        \<and> x_headers A = map (\<lambda>(pos, e). ARCHIVE_OK pos e) [(0, ''a''), (512, ''b'')]
              @ ARCHIVE_EOF # []"
    by (simp add: A_def)
  have iA: "index_entries (x_opened A) (x_headers A)
      = (MFU_SUCCESS, word_of_nat (length [(0 :: u64, ''a''), (512, ''b'')]),
         map fst [(0 :: u64, ''a''), (512, ''b'')])"
    using tA hA1 by blast
  then have iA': "index_entries (x_opened A) (x_headers A) = (MFU_SUCCESS, 2, [0, 512])"
    by simp
  have pA: "entry_partition 2 (int 2) (int 1) = (1, 1)"
    by (simp add: entry_partition_def Let_def)
  have hA2: "index_entries (x_opened A) (x_headers A) = (MFU_SUCCESS, 2, [0, 512])
        \<and> entry_partition 2 (int 2) (int 1) = (1, 1)
        \<and> x_extract_flist_offsets A 2 1 1 [0, 512] = MFU_SUCCESS
        \<and> (if False then x_extract_files_offsets A 2 1 1 [0, 512] = MFU_SUCCESS
            else x_extract_files_offsets_chunk A 2 1 1 = MFU_SUCCESS
                 \<and> x_extract_symlinks A [0, 512] = MFU_SUCCESS)"
    using iA' pA by (simp add: A_def)
  have "mfu_flist_archive_extract A ''a.tar'' False 2 1
     = ([Call_read_entry_index, Call_index_entries, Call_extract_flist_offsets 2 1 1 [0, 512]]
          @ (if False then [Call_extract_files_offsets 2 1 1 [0, 512]]
             else [Call_extract_files_offsets_chunk 2 1 1, Call_extract_symlinks [0, 512]])
          @ [Call_write_entry_index 1 (take (unat (1 :: u64)) (drop (unat (1 :: u64)) [0, 512]))],
        Returns MFU_SUCCESS)"
    using tA hA2 by blast
  then have eA: "mfu_flist_archive_extract A ''a.tar'' False 2 1
     = ([Call_read_entry_index, Call_index_entries,
         Call_extract_flist_offsets 2 1 1 [0, 512], Call_extract_files_offsets_chunk 2 1 1,
         Call_extract_symlinks [0, 512], Call_write_entry_index 1 [512]],
        Returns MFU_SUCCESS)"
    by simp
  have iA2: "index_entries True [ARCHIVE_OK 0 ''a'', ARCHIVE_OK 512 ''b'', ARCHIVE_EOF]
       = (MFU_SUCCESS, 2, [0, 512])"
    using iA' by (simp add: A_def)
  have hB: "fst (index_entries (x_opened B) (x_headers B)) = MFU_FAILURE
        \<and> (\<exists>flist. extract_flist (x_open_r B) (x_headers B) 2 0 (x_others B)
                       = Returns (MFU_SUCCESS, flist))
        \<and> x_extract_files B 0 0 0 = MFU_SUCCESS"
    by (simp add: B_def index_entries_def extract_flist_def mfu_alltrue_def)
  have eB: "mfu_flist_archive_extract B ''a.tar'' False 2 0
     = ([Call_read_entry_index, Call_index_entries, Call_extract_flist,
         Call_extract_files 0 0 0], Returns MFU_SUCCESS)"
    using tB hB by blast
  show ?thesis using mA iA2 eA eB unfolding A_def B_def by blast
qed

lemma extract_flist_loop_error:
  "extract_flist_loop (map (\<lambda>(pos, e). ARCHIVE_OK pos e) pre @ ARCHIVE_ERROR r # rest)
     count ranks mfu_rank flist = Exits r"
proof (induction pre arbitrary: count flist)
  case Nil
  then show ?case by simp
next
  case (Cons a pre)
  then show ?case by (cases a) simp
qed

lemma extract_flist_header_error:
  "extract_flist 0 (map (\<lambda>(pos, e). ARCHIVE_OK pos e) pre @ ARCHIVE_ERROR r # rest)
     ranks mfu_rank others = Exits r"
  by (simp add: extract_flist_def extract_flist_loop_error)

lemma extract_flist_never_returns_failure:
  "others \<Longrightarrow> extract_flist open_r hdrs ranks mfu_rank others \<noteq> Returns (MFU_FAILURE, flist)"
  by (simp add: extract_flist_def mfu_alltrue_def Let_def split: outcome.splits)


text \<open>
  Claim C5.  A failure to read an entry header in \<^verbatim>\<open>extract_flist\<close> is not returned as a
  failure: the function calls \<^verbatim>\<open>exit\<close> with the error code.  For an archive without index
  whose second header cannot be read (\<^verbatim>\<open>ARCHIVE_FATAL\<close>, -30), \<^verbatim>\<open>index_entries\<close> returns
  \<^verbatim>\<open>MFU_FAILURE\<close>, \<^verbatim>\<open>extract_flist\<close> ends the process with code -30, and so does
  \<^verbatim>\<open>mfu_flist_archive_extract\<close>, which has taken the scan path.\<close>

theorem extract_flist_exits_on_header_error:
  "index_entries True [ARCHIVE_OK 0 ''a'', ARCHIVE_ERROR (- 30)] = (MFU_FAILURE, 0, [])
   \<and> extract_flist 0 [ARCHIVE_OK 0 ''a'', ARCHIVE_ERROR (- 30)] 2 0 True = Exits (- 30)
   \<and> mfu_flist_archive_extract
        \<lparr>x_fs = \<lparr>fs_files = Map.empty, fs_denied = (\<lambda>p. False), fs_full = False\<rparr>,
         x_opened = True, x_open_r = 0,
         x_headers = [ARCHIVE_OK 0 ''a'', ARCHIVE_ERROR (- 30)], x_others = True,
         x_extract_flist_offsets = (\<lambda>n s c offs. MFU_SUCCESS),
         x_extract_files_offsets = (\<lambda>n s c offs. MFU_SUCCESS),
         x_extract_files_offsets_chunk = (\<lambda>n s c. MFU_SUCCESS),
         x_extract_symlinks = (\<lambda>offs. MFU_SUCCESS),
         x_extract_files = (\<lambda>n s c. MFU_SUCCESS)\<rparr> ''a.tar'' False 2 0
       = ([Call_read_entry_index, Call_index_entries, Call_extract_flist], Exits (- 30))"
proof -
  have i: "index_entries True [ARCHIVE_OK 0 ''a'', ARCHIVE_ERROR (- 30)] = (MFU_FAILURE, 0, [])"
    by (simp add: index_entries_def)
  have e: "extract_flist 0 [ARCHIVE_OK 0 ''a'', ARCHIVE_ERROR (- 30)] 2 0 True = Exits (- 30)"
    by (simp add: extract_flist_def)
  show ?thesis
    by (simp add: i e mfu_flist_archive_extract_def read_entry_index_def Let_def)
qed


section \<open>Entry headers of symlinks\<close>

text \<open>
  Claim C6.  In the branch that reads the link target into the \<^verbatim>\<open>PATH_MAX\<close>-sized buffer
  (\<^verbatim>\<open>opts->preserve\<close> off), a symlink whose target has \<^verbatim>\<open>PATH_MAX\<close> bytes or more makes
  \<^verbatim>\<open>encode_header\<close> return \<^verbatim>\<open>MFU_FAILURE\<close>; the entry handed to the codec carries no link
  target, so no truncated target is encoded; and \<^verbatim>\<open>write_header\<close> sets \<^verbatim>\<open>DTAR_err\<close>, returns
  \<^verbatim>\<open>MFU_FAILURE\<close> and leaves the archive as it is.\<close>

theorem long_symlink_target_fails_header:
  assumes np: "\<not> preserve" and lnk: "item_type it = MFU_TYPE_LINK"
    and tgt: "he_link_target env (item_name it) = Some target"
    and long: "path_max \<le> length target"
  shows "fst (encode_header env path_max preserve bufsize it) = MFU_FAILURE
    \<and> ae_symlink (snd (build_entry env path_max preserve it)) = None
    \<and> write_header env path_max preserve bufsize writable it pos st
         = (MFU_FAILURE, st\<lparr>DTAR_err := True\<rparr>)"
proof -
  have len: "length (take path_max target) = path_max" using long by simp
  have b: "build_entry env path_max preserve it
      = (MFU_FAILURE, \<lparr>ae_pathname = he_relative env (item_name it),
            ae_stat = Some (he_lstat env (item_name it)),
            ae_uname = he_username env (item_name it),
            ae_gname = he_groupname env (item_name it), ae_symlink = None\<rparr>)"
    using np lnk long by (simp add: build_entry_def mfu_readlink_def tgt Let_def)
  have e: "fst (encode_header env path_max preserve bufsize it) = MFU_FAILURE"
    by (simp add: encode_header_def b Let_def split: prod.splits)
  obtain rc buf where eh: "encode_header env path_max preserve bufsize it = (rc, buf)"
    by (cases "encode_header env path_max preserve bufsize it")
  have rc: "rc = MFU_FAILURE" using e eh by simp
  have w: "write_header env path_max preserve bufsize writable it pos st
         = (MFU_FAILURE, st\<lparr>DTAR_err := True\<rparr>)"
    by (simp add: write_header_def eh rc)
  show ?thesis using e w by (simp add: b)
qed


theorem long_symlink_target_fails_header_witness:
  "\<not> False
   \<and> item_type \<lparr>item_name = ''/l'', item_type = MFU_TYPE_LINK, item_size = 0, item_hdr = 0\<rparr>
       = MFU_TYPE_LINK
   \<and> he_link_target
        \<lparr>he_relative = (\<lambda>p. p), he_from_file = (\<lambda>p e. Some e), he_lstat = (\<lambda>p. ()),
         he_username = (\<lambda>p. ''u''), he_groupname = (\<lambda>p. ''g''),
         he_link_target = [''/l'' \<mapsto> ''abcdefgh''], he_open_memory = True,
         he_write_header = (\<lambda>e n. (True, [0]))\<rparr>
        (item_name \<lparr>item_name = ''/l'', item_type = MFU_TYPE_LINK, item_size = 0, item_hdr = 0\<rparr>)
       = Some ''abcdefgh''
   \<and> (8 :: nat) \<le> length ''abcdefgh''
   \<and> fst (encode_header
        \<lparr>he_relative = (\<lambda>p. p), he_from_file = (\<lambda>p e. Some e), he_lstat = (\<lambda>p. ()),
         he_username = (\<lambda>p. ''u''), he_groupname = (\<lambda>p. ''g''),
         he_link_target = [''/l'' \<mapsto> ''abcdefgh''], he_open_memory = True,
         he_write_header = (\<lambda>e n. (True, [0]))\<rparr>
        8 False 512
        \<lparr>item_name = ''/l'', item_type = MFU_TYPE_LINK, item_size = 0, item_hdr = 0\<rparr>)
       = MFU_FAILURE"
proof -
  define env :: "unit header_env" where "env =
        \<lparr>he_relative = (\<lambda>p. p), he_from_file = (\<lambda>p e. Some e), he_lstat = (\<lambda>p. ()),
         he_username = (\<lambda>p. ''u''), he_groupname = (\<lambda>p. ''g''),
         he_link_target = [''/l'' \<mapsto> ''abcdefgh''], he_open_memory = True,
         he_write_header = (\<lambda>e n. (True, [0]))\<rparr>"
  define it where "it = \<lparr>item_name = ''/l'', item_type = MFU_TYPE_LINK, item_size = 0, item_hdr = 0\<rparr>"
  have h1: "\<not> False" by simp
  have h2: "item_type it = MFU_TYPE_LINK" by (simp add: it_def)
  have h3: "he_link_target env (item_name it) = Some ''abcdefgh''" by (simp add: env_def it_def)
  have h4: "(8 :: nat) \<le> length ''abcdefgh''" by simp
  have "fst (encode_header env 8 False 512 it) = MFU_FAILURE"
    using long_symlink_target_fails_header [OF h1 h2 h3 h4, of 512] by blast
  then show ?thesis using h1 h2 h3 h4 unfolding env_def it_def by blast
qed

text \<open>
  With \<^verbatim>\<open>opts->preserve\<close> on, \<^verbatim>\<open>encode_header\<close> takes the other branch: the entry is
  read by \<^verbatim>\<open>archive_read_disk_entry_from_file\<close> and the link target never passes through the
  \<^verbatim>\<open>PATH_MAX\<close>-sized buffer.  For a symlink whose target (10 bytes) is longer than the
  buffer (8 bytes) and a codec that reads the entry, \<^verbatim>\<open>encode_header\<close> and
  \<^verbatim>\<open>write_header\<close> return \<^verbatim>\<open>MFU_SUCCESS\<close>, the header is written and \<^verbatim>\<open>DTAR_err\<close> stays
  clear.\<close>

theorem long_symlink_preserve_counterexample:
  "item_type \<lparr>item_name = ''/l'', item_type = MFU_TYPE_LINK, item_size = 0, item_hdr = 0\<rparr>
     = MFU_TYPE_LINK
   \<and> he_link_target
        \<lparr>he_relative = (\<lambda>p. p),
         he_from_file = (\<lambda>p e. Some (e\<lparr>ae_stat := Some (), ae_symlink := Some ''abcdefghij''\<rparr>)),
         he_lstat = (\<lambda>p. ()), he_username = (\<lambda>p. ''u''), he_groupname = (\<lambda>p. ''g''),
         he_link_target = [''/l'' \<mapsto> ''abcdefghij''], he_open_memory = True,
         he_write_header = (\<lambda>e n. (True, [0]))\<rparr> ''/l'' = Some ''abcdefghij''
   \<and> (8 :: nat) < length ''abcdefghij''
   \<and> encode_header
        \<lparr>he_relative = (\<lambda>p. p),
         he_from_file = (\<lambda>p e. Some (e\<lparr>ae_stat := Some (), ae_symlink := Some ''abcdefghij''\<rparr>)),
         he_lstat = (\<lambda>p. ()), he_username = (\<lambda>p. ''u''), he_groupname = (\<lambda>p. ''g''),
         he_link_target = [''/l'' \<mapsto> ''abcdefghij''], he_open_memory = True,
         he_write_header = (\<lambda>e n. (True, [0]))\<rparr>
        8 True 512
        \<lparr>item_name = ''/l'', item_type = MFU_TYPE_LINK, item_size = 0, item_hdr = 0\<rparr>
       = (MFU_SUCCESS, [0])
   \<and> write_header
        \<lparr>he_relative = (\<lambda>p. p),
         he_from_file = (\<lambda>p e. Some (e\<lparr>ae_stat := Some (), ae_symlink := Some ''abcdefghij''\<rparr>)),
         he_lstat = (\<lambda>p. ()), he_username = (\<lambda>p. ''u''), he_groupname = (\<lambda>p. ''g''),
         he_link_target = [''/l'' \<mapsto> ''abcdefghij''], he_open_memory = True,
         he_write_header = (\<lambda>e n. (True, [0]))\<rparr>
        8 True 512 True
        \<lparr>item_name = ''/l'', item_type = MFU_TYPE_LINK, item_size = 0, item_hdr = 0\<rparr> 0
        \<lparr>DTAR_err = False, reduce_bytes = 0, archive = [7, 7], archive_pos = 0\<rparr>
       = (MFU_SUCCESS,
          \<lparr>DTAR_err = False, reduce_bytes = 0, archive = [0, 7], archive_pos = 0\<rparr>)"
  by (simp add: encode_header_def build_entry_def write_header_def mfu_pwrite_def lseek_ok_def
        file_write_def Let_def)

section \<open>Size of the created archive\<close>

lemma sint_small:
  assumes "unat (w :: u64) < 2 ^ 63"
  shows "sint w = int (unat w)"
proof -
  have "int (unat w) < int (2 ^ 63)" using assms by (simp only: of_nat_less_iff)
  then have b: "uint w < 2 ^ 63" by simp
  have "- (2 ^ 63) \<le> (0 :: int)" by simp
  also have "0 \<le> uint w" by simp
  finally have a: "- (2 ^ 63) \<le> uint w" .
  have "signed_take_bit 63 (uint w) = uint w"
    by (rule signed_take_bit_int_eq_self [OF a b])
  then show ?thesis by (simp add: sint_uint)
qed

lemma layout_total_sum: "layout_total flist off = off + sum_list (map entry_size flist)"
  by (induction flist arbitrary: off) (simp_all add: add.assoc)

lemma sum_list_concat_u64: "sum_list (concat xss) = sum_list (map sum_list xss)"
  for xss :: "u64 list list"
  by (induction xss) simp_all

lemma archive_size_sum: "archive_size world = sum_list (map entry_size (concat world))"
  by (simp add: archive_size_def MPI_Allreduce_sum_def layout_total_sum map_concat
        sum_list_concat_u64 o_def)

lemma unat_sum_list:
  "sum_list (map unat xs) < 2 ^ 64 \<Longrightarrow> unat (sum_list xs :: u64) = sum_list (map unat xs)"
proof (induction xs)
  case Nil
  then show ?case by simp
next
  case (Cons x xs)
  then have "unat (sum_list xs) = sum_list (map unat xs)" by simp
  moreover have "unat x + sum_list (map unat xs) < 2 ^ LENGTH(64)" using Cons.prems by simp
  ultimately show ?case using unat_add_lem [of x "sum_list xs"] by simp
qed

lemma length_file_write:
  "length (file_write f pos data) = max (length f) (pos + length data)"
  by (simp add: file_write_def Let_def)

lemma length_writes_in_range:
  "\<forall>(pos, buf) \<in> set writes. pos + length buf \<le> n \<Longrightarrow> n \<le> length f \<Longrightarrow>
   length (foldl (\<lambda>f (pos, buf). file_write f pos buf) f writes) = length f"
proof (induction writes arbitrary: f)
  case Nil
  then show ?case by simp
next
  case (Cons w writes)
  obtain pos buf where w: "w = (pos, buf)" by (cases w)
  have l: "length (file_write f pos buf) = length f"
    using Cons.prems w by (simp add: length_file_write)
  show ?case using Cons.IH [of "file_write f pos buf"] Cons.prems w l by simp
qed

lemma ftruncate_zero: "mfu_ftruncate f 0 = []"
  by (simp add: mfu_ftruncate_def)

lemma ftruncate_empty: "\<not> sint len < 0 \<Longrightarrow> mfu_ftruncate [] len = replicate (unat len) 0"
  by (simp add: mfu_ftruncate_def)

lemma length_fallocate: "length f = unat len \<Longrightarrow> length (posix_fallocate f len) = unat len"
  by (simp add: posix_fallocate_def)

lemma preallocate_length:
  assumes "unat (archive_size world) + 1024 < 2 ^ 63"
  shows "unat (final_size world) = unat (archive_size world) + 1024"
    and "length (preallocate f world) = unat (archive_size world) + 1024"
proof -
  have "unat (archive_size world) + unat (1024 :: u64) < 2 ^ LENGTH(64)" using assms by simp
  then have u: "unat (archive_size world + 1024) = unat (archive_size world) + 1024"
    using unat_add_lem [of "archive_size world" 1024] by simp
  then show fs: "unat (final_size world) = unat (archive_size world) + 1024"
    by (simp add: final_size_def)
  have "unat (final_size world) < 2 ^ 63" using assms fs by simp
  then have s: "sint (final_size world) = int (unat (final_size world))" by (rule sint_small)
  have "0 < unat (final_size world)" using fs by simp
  then have "0 < int (unat (final_size world))" by (simp only: of_nat_0_less_iff)
  then have sp: "\<not> sint (final_size world) < 0" "\<not> sint (final_size world) \<le> 0"
    using s by linarith+
  have "length (preallocate f world) = unat (final_size world)"
    unfolding preallocate_def Let_def ftruncate_zero
    by (simp only: ftruncate_empty [OF sp(1)] length_fallocate length_replicate)
  then show "length (preallocate f world) = unat (archive_size world) + 1024"
    by (simp only: fs)
qed

lemma file_write_at_end:
  assumes "length f = n + length z"
  shows "file_write f n z = take n f @ z"
  using assms by (simp add: file_write_def Let_def)

lemma mfu_pwrite_ok:
  assumes "unat pos < 2 ^ 63"
  shows "mfu_pwrite True f buf pos = (int (length buf), file_write f (unat pos) buf)"
proof -
  have "sint pos = int (unat pos)" using assms by (rule sint_small)
  then have "lseek_ok pos" by (simp add: lseek_ok_def)
  then show ?thesis by (simp add: mfu_pwrite_def)
qed

lemma trailer_write:
  assumes "unat (archive_size world) + 1024 < 2 ^ 63"
  shows "write_trailer True f world
           = (file_write f (unat (archive_size world)) (replicate 1024 0), False)"
proof -
  have "unat (archive_size world) < 2 ^ 63" using assms by simp
  then show ?thesis by (simp add: write_trailer_def mfu_pwrite_ok Let_def)
qed

lemma created_archive_layout:
  assumes small: "unat (archive_size world) + 1024 < 2 ^ 63"
    and inside: "\<forall>(pos, buf) \<in> set writes. pos + length buf \<le> unat (archive_size world)"
  shows "length (created_archive f0 world writes) = unat (archive_size world) + 1024"
    and "drop (unat (archive_size world)) (created_archive f0 world writes) = replicate 1024 0"
proof -
  define n where "n = unat (archive_size world)"
  define z :: "u8 list" where "z = replicate 1024 0"
  define f where "f = foldl (\<lambda>f (pos, buf). file_write f pos buf) (preallocate f0 world) writes"
  have lz: "length z = 1024" by (simp add: z_def)
  have lp: "length (preallocate f0 world) = n + 1024"
    unfolding n_def by (rule preallocate_length(2) [OF small])
  have "n \<le> length (preallocate f0 world)" using lp by simp
  then have "length f = length (preallocate f0 world)"
    unfolding f_def using inside [folded n_def] by (rule length_writes_in_range [rotated])
  then have lf: "length f = n + length z" using lp lz by simp
  have "created_archive f0 world writes = fst (write_trailer True f world)"
    by (simp only: created_archive_def f_def)
  then have c: "created_archive f0 world writes = take n f @ z"
    unfolding trailer_write [OF small] n_def [symmetric] z_def [symmetric]
    using file_write_at_end [OF lf] by simp
  have ltn: "length (take n f) = n" using lf by simp
  show "length (created_archive f0 world writes) = unat (archive_size world) + 1024"
    unfolding c n_def [symmetric] using ltn lz by simp
  show "drop (unat (archive_size world)) (created_archive f0 world writes) = replicate 1024 0"
    unfolding c n_def [symmetric] z_def [symmetric] using ltn by simp
qed


text \<open>
  Claim C1.  \<^verbatim>\<open>archive_size\<close>, the all-reduce sum of the local totals, is the sum of
  \<^verbatim>\<open>entry_size\<close> over all entries of all ranks, and the file is truncated and preallocated
  to \<^verbatim>\<open>archive_size + 1024\<close> (both in \<^verbatim>\<open>uint64_t\<close> arithmetic).  When the sum of the entry
  sizes plus 1024 is a valid \<^verbatim>\<open>off_t\<close>, nothing wraps: the file has that many bytes after
  the preallocation, the trailer is 1024 zero bytes written at offset \<^verbatim>\<open>archive_size\<close>, and
  after any header and data writes inside the first \<^verbatim>\<open>archive_size\<close> bytes the created
  archive has \<open>\<Sum> entry_size + 1024\<close> bytes, the last 1024 of them zero.\<close>

theorem created_archive_size:
  "archive_size world = sum_list (map entry_size (concat world))
   \<and> final_size world = archive_size world + 1024
   \<and> (sum_list (map (\<lambda>it. unat (entry_size it)) (concat world)) + 1024 < 2 ^ 63 \<longrightarrow>
         unat (archive_size world) = sum_list (map (\<lambda>it. unat (entry_size it)) (concat world))
       \<and> unat (final_size world)
           = sum_list (map (\<lambda>it. unat (entry_size it)) (concat world)) + 1024
       \<and> length (preallocate f0 world)
           = sum_list (map (\<lambda>it. unat (entry_size it)) (concat world)) + 1024
       \<and> write_trailer True f world
           = (file_write f (unat (archive_size world)) (replicate 1024 0), False)
       \<and> ((\<forall>(pos, buf) \<in> set writes. pos + length buf \<le> unat (archive_size world)) \<longrightarrow>
            length (created_archive f0 world writes)
              = sum_list (map (\<lambda>it. unat (entry_size it)) (concat world)) + 1024
          \<and> drop (unat (archive_size world)) (created_archive f0 world writes)
              = replicate 1024 0))"
proof (intro conjI impI)
  show "archive_size world = sum_list (map entry_size (concat world))"
    by (rule archive_size_sum)
  show "final_size world = archive_size world + 1024" by (simp add: final_size_def)
next
  assume h: "sum_list (map (\<lambda>it. unat (entry_size it)) (concat world)) + 1024 < 2 ^ 63"
  have "sum_list (map unat (map entry_size (concat world))) < 2 ^ 64"
    using h by (simp add: o_def)
  then have "unat (sum_list (map entry_size (concat world)))
      = sum_list (map unat (map entry_size (concat world)))" by (rule unat_sum_list)
  then show u: "unat (archive_size world)
      = sum_list (map (\<lambda>it. unat (entry_size it)) (concat world))"
    by (simp add: archive_size_sum o_def)
  have small: "unat (archive_size world) + 1024 < 2 ^ 63" using h u by simp
  show "unat (final_size world)
           = sum_list (map (\<lambda>it. unat (entry_size it)) (concat world)) + 1024"
    using preallocate_length(1) [OF small] u by simp
  show "length (preallocate f0 world)
           = sum_list (map (\<lambda>it. unat (entry_size it)) (concat world)) + 1024"
    using preallocate_length(2) [OF small] u by simp
  show "write_trailer True f world
           = (file_write f (unat (archive_size world)) (replicate 1024 0), False)"
    by (rule trailer_write [OF small])
  assume w: "\<forall>(pos, buf) \<in> set writes. pos + length buf \<le> unat (archive_size world)"
  show "length (created_archive f0 world writes)
              = sum_list (map (\<lambda>it. unat (entry_size it)) (concat world)) + 1024"
    using created_archive_layout(1) [OF small w] u by simp
  show "drop (unat (archive_size world)) (created_archive f0 world writes) = replicate 1024 0"
    by (rule created_archive_layout(2) [OF small w])
qed

theorem created_archive_size_witness:
  "sum_list (map (\<lambda>it. unat (entry_size it))
      (concat [[\<lparr>item_name = ''a'', item_type = MFU_TYPE_FILE, item_size = 13, item_hdr = 512\<rparr>],
               [\<lparr>item_name = ''b'', item_type = MFU_TYPE_FILE, item_size = 0, item_hdr = 512\<rparr>]]))
     + 1024 < 2 ^ 63
   \<and> (0 :: nat) + length [1, 2, 3 :: u8]
        \<le> unat (archive_size
             [[\<lparr>item_name = ''a'', item_type = MFU_TYPE_FILE, item_size = 13, item_hdr = 512\<rparr>],
              [\<lparr>item_name = ''b'', item_type = MFU_TYPE_FILE, item_size = 0, item_hdr = 512\<rparr>]])
   \<and> length (created_archive [9, 9]
        [[\<lparr>item_name = ''a'', item_type = MFU_TYPE_FILE, item_size = 13, item_hdr = 512\<rparr>],
         [\<lparr>item_name = ''b'', item_type = MFU_TYPE_FILE, item_size = 0, item_hdr = 512\<rparr>]]
        [(0, [1, 2, 3])]) = 2560"
proof -
  define W where "W =
     [[\<lparr>item_name = ''a'', item_type = MFU_TYPE_FILE, item_size = 13, item_hdr = 512\<rparr>],
      [\<lparr>item_name = ''b'', item_type = MFU_TYPE_FILE, item_size = 0, item_hdr = 512\<rparr>]]"
  have s: "sum_list (map (\<lambda>it. unat (entry_size it)) (concat W)) = 1536"
    by (simp add: W_def entry_size_def fsize_padded_def Let_def)
  have h1: "sum_list (map (\<lambda>it. unat (entry_size it)) (concat W)) + 1024 < 2 ^ 63"
    unfolding s by simp
  note t = created_archive_size [of W "[9, 9]" "[]" "[(0, [1, 2, 3])]",
              THEN conjunct2, THEN conjunct2, THEN mp, OF h1]
  have u: "unat (archive_size W) = 1536" using t s by simp
  have h2: "\<forall>(pos, buf) \<in> set [(0, [1, 2, 3 :: u8])]. pos + length buf \<le> unat (archive_size W)"
    unfolding u by simp
  have "length (created_archive [9, 9] W [(0, [1, 2, 3])])
          = sum_list (map (\<lambda>it. unat (entry_size it)) (concat W)) + 1024"
    using t h2 by blast
  then have "length (created_archive [9, 9] W [(0, [1, 2, 3])]) = 2560" unfolding s by simp
  moreover have "(0 :: nat) + length [1, 2, 3 :: u8] \<le> unat (archive_size W)"
    unfolding u by simp
  ultimately show ?thesis using h1 unfolding W_def by blast
qed


end
